theory Spec2Isabelle
  imports Complex_Main
begin

section \<open>Data model\<close>

text \<open>
  The types of the two source files. A pokemon's \<open>moves\<close> array holds objects
  \<open>{ move: { name, url } }\<close>; each is kept as the pair (name, url). A move's power is
  \<open>number | null\<close>: the catalogue delivers integers, and \<open>null\<close> is \<open>None\<close>.
\<close>

record Sprites =
  front_default :: string

record Pokemon =
  name :: string
  sprites :: Sprites
  moves :: "(string \<times> string) list"

record Move =
  name :: string
  power :: "int option"

text \<open>
  \<open>PokemonWithMove\<close> pairs a pokemon with what was fetched as its move. The battle field
  reads the move slot as a \<open>Move\<close>; the fetching component stores there whatever the
  promise returned by \<open>getMove\<close> was fulfilled with, so the slot's type is a parameter.
\<close>

record 'm PokemonWithMove =
  pokemon :: Pokemon
  move :: 'm

section \<open>BattleField.tsx: the battle outcome\<close>

text \<open>
  \<open>toUpperCase\<close> on the names of the catalogue (ASCII letters, digits and hyphens):
  a lower-case letter is moved to its capital, every other character is kept.
\<close>

definition toUpperCase_char :: "char \<Rightarrow> char" where
  "toUpperCase_char c =
     (let n = (of_char c :: nat) in if 97 \<le> n \<and> n \<le> 122 then char_of (n - 32) else c)"

definition toUpperCase :: "string \<Rightarrow> string" where
  "toUpperCase s = map toUpperCase_char s"

definition DECISIVE_BLOW :: "string \<Rightarrow> string \<Rightarrow> string \<Rightarrow> string" where
  "DECISIVE_BLOW winner mv loser =
     toUpperCase winner @ '' lands a decisive blow with '' @ toUpperCase mv
       @ '', knocking out '' @ toUpperCase loser @ ''!''"

definition TIE :: string where
  "TIE = ''It's a tie! Both Pokemon are evenly matched!''"

definition LOADING :: string where
  "LOADING = ''Preparing for battle...''"


section \<open>The bounded cache\<close>

text \<open>
  A JavaScript \<open>Map\<close> keeps its entries in insertion order: \<open>set\<close> on a present key
  replaces the value where the entry stands, \<open>set\<close> on a new key appends, \<open>delete\<close>
  removes the entry of the key, and \<open>keys().next().value\<close> is the key of the first entry
  (\<open>undefined\<close>, here \<open>None\<close>, on an empty map).
\<close>

type_synonym 'v js_map = "(string \<times> 'v) list"

definition Map_get :: "'v js_map \<Rightarrow> string \<Rightarrow> 'v option" where
  "Map_get m k = map_of m k"

fun Map_set :: "string \<Rightarrow> 'v \<Rightarrow> 'v js_map \<Rightarrow> 'v js_map" where
  "Map_set k v [] = [(k, v)]"
| "Map_set k v (e # m) = (if fst e = k then (k, v) # m else e # Map_set k v m)"

definition Map_delete :: "string \<Rightarrow> 'v js_map \<Rightarrow> 'v js_map" where
  "Map_delete k m = filter (\<lambda>e. fst e \<noteq> k) m"

definition Map_first_key :: "'v js_map \<Rightarrow> string option" where
  "Map_first_key m = (case m of [] \<Rightarrow> None | e # _ \<Rightarrow> Some (fst e))"

record 'v Cache =
  cache :: "'v js_map"
  maxSize :: nat

definition Cache_new :: "nat \<Rightarrow> 'v Cache" where
  "Cache_new n = \<lparr>cache = [], maxSize = n\<rparr>"

definition Cache_get :: "'v Cache \<Rightarrow> string \<Rightarrow> 'v option" where
  "Cache_get c key = Map_get (cache c) key"

text \<open>
  \<open>set\<close>: when the map's size has reached \<open>maxSize\<close> the first key is deleted (deleting
  \<open>undefined\<close> from an empty map removes nothing); then the entry is written.
\<close>

definition Cache_set :: "string \<Rightarrow> 'v \<Rightarrow> 'v Cache \<Rightarrow> 'v Cache" where
  "Cache_set key val c =
     (let m = (if length (cache c) \<ge> maxSize c then
                 (case Map_first_key (cache c) of
                    None \<Rightarrow> cache c
                  | Some firstKey \<Rightarrow> Map_delete firstKey (cache c))
               else cache c)
      in c\<lparr>cache := Map_set key val m\<rparr>)"

definition Cache_clear :: "'v Cache \<Rightarrow> 'v Cache" where
  "Cache_clear c = c\<lparr>cache := []\<rparr>"

text \<open>
  A sequence of calls on one cache. \<open>get\<close> returns a value and writes nothing, so a
  \<open>Get\<close> leaves the cache as it is.
\<close>

datatype 'v cache_op = Set string 'v | Get string

fun cache_call :: "'v cache_op \<Rightarrow> 'v Cache \<Rightarrow> 'v Cache" where
  "cache_call (Set k v) c = Cache_set k v c"
| "cache_call (Get k) c = c"

definition cache_calls :: "'v cache_op list \<Rightarrow> 'v Cache \<Rightarrow> 'v Cache" where
  "cache_calls cs c = foldl (\<lambda>c x. cache_call x c) c cs"

fun inserted :: "'v cache_op list \<Rightarrow> 'v js_map" where
  "inserted [] = []"
| "inserted (Set k v # cs) = (k, v) # inserted cs"
| "inserted (Get k # cs) = inserted cs"

text \<open>
  Every \<open>set\<close> of the sequence writes a key that is not in the cache when it is called
  (a key evicted before may come again).
\<close>

fun first_writes :: "'v cache_op list \<Rightarrow> 'v Cache \<Rightarrow> bool" where
  "first_writes [] c = True"
| "first_writes (Set k v # cs) c = (Cache_get c k = None \<and> first_writes cs (Cache_set k v c))"
| "first_writes (Get k # cs) c = first_writes cs c"

section \<open>The request coordinator\<close>

text \<open>
  The module keeps two caches and one registry of pending requests, all process-wide:
  \<open>pokemonCache\<close> (capacity 50), \<open>moveCache\<close> (capacity 200) and \<open>activeRequests\<close>,
  a \<open>Map<string, Promise<any>>\<close>. A promise of the registry is named by the index of its
  HTTP request in \<open>requests\<close>, the list of all requests issued so far: one entry per call
  of \<open>axios.get\<close>. \<open>settled\<close> lists the requests in the order they settled.
\<close>

datatype payload = PokemonData Pokemon | MoveData Move

text \<open>A thrown value: an \<open>Error\<close> with its message, or something that is no \<open>Error\<close>.\<close>

datatype thrown = Error string | NonError

datatype settlement = Pending | Fulfilled payload | Rejected thrown

text \<open>
  The \<open>then\<close>/\<open>catch\<close> pair chained on a request, with the key it has captured:
  \<open>cacheKey\<close> in \<open>getPokemon\<close>, \<open>name\<close> in \<open>getMove\<close>.
\<close>

datatype handler = PokemonHandler string | MoveHandler string

record request =
  url :: string
  handler :: handler
  state :: settlement

record globals =
  pokemonCache :: "Pokemon Cache"
  moveCache :: "Move Cache"
  activeRequests :: "nat js_map"
  requests :: "request list"
  settled :: "nat list"

definition init_globals :: globals where
  "init_globals = \<lparr>pokemonCache = Cache_new 50, moveCache = Cache_new 200,
     activeRequests = [], requests = [], settled = []\<rparr>"

definition request_key :: "request \<Rightarrow> string" where
  "request_key q = (case handler q of PokemonHandler k \<Rightarrow> k | MoveHandler k \<Rightarrow> k)"

text \<open>
  What an \<open>async\<close> function's promise is resolved with: a value, a thrown error, or
  another promise whose settlement it adopts.
\<close>

datatype handle = Ready payload | Thrown thrown | Waiting nat

text \<open>\<open>id.toString()\<close> of a pokemon id, a natural number: its decimal digits.\<close>

fun toString :: "nat \<Rightarrow> string" where
  "toString n = (if n < 10 then [char_of (48 + n)]
                 else toString (n div 10) @ [char_of (48 + n mod 10)])"

declare toString.simps [simp del]

definition getPokemon :: "nat \<Rightarrow> globals \<Rightarrow> handle \<times> globals" where
  "getPokemon pid g =
     (let cacheKey = toString pid in
      case Cache_get (pokemonCache g) cacheKey of
        Some cached \<Rightarrow> (Ready (PokemonData cached), g)
      | None \<Rightarrow>
         (case Map_get (activeRequests g) cacheKey of
            Some r \<Rightarrow> (Waiting r, g)
          | None \<Rightarrow>
             (let r = length (requests g);
                  request = \<lparr>url = ''https://pokeapi.co/api/v2/pokemon/'' @ toString pid,
                             handler = PokemonHandler cacheKey, state = Pending\<rparr>
              in (Waiting r,
                  g\<lparr>requests := requests g @ [request],
                    activeRequests := Map_set cacheKey r (activeRequests g)\<rparr>))))"

definition getMove :: "string \<Rightarrow> string \<Rightarrow> globals \<Rightarrow> handle \<times> globals" where
  "getMove u nm g =
     (case Cache_get (moveCache g) nm of
        Some cached \<Rightarrow> (Ready (MoveData cached), g)
      | None \<Rightarrow>
         (case Map_get (activeRequests g) nm of
            Some r \<Rightarrow> (Waiting r, g)
          | None \<Rightarrow>
             (let r = length (requests g);
                  request = \<lparr>url = u, handler = MoveHandler nm, state = Pending\<rparr>
              in (Waiting r,
                  g\<lparr>requests := requests g @ [request],
                    activeRequests := Map_set nm r (activeRequests g)\<rparr>))))"

text \<open>
  The settlement of an HTTP request: a response body of the endpoint (\<open>res.data\<close> of a
  pokemon, \<open>res.data.power\<close> of a move) or a failure (timeout, transport error).
\<close>

datatype response = PokemonJson Pokemon | MoveJson "int option"

datatype outcome = Ok response | Failed thrown

text \<open>
  The handlers of the two functions. On success the value is cached, the registry entry is
  deleted and the value returned; on failure the entry is deleted and the error thrown
  again. A body of the other endpoint's shape is not delivered (\<open>None\<close>).
\<close>

fun run_handler :: "handler \<Rightarrow> outcome \<Rightarrow> globals \<Rightarrow> (settlement \<times> globals) option" where
  "run_handler (PokemonHandler cacheKey) (Ok (PokemonJson data)) g =
     Some (Fulfilled (PokemonData data),
           g\<lparr>pokemonCache := Cache_set cacheKey data (pokemonCache g),
             activeRequests := Map_delete cacheKey (activeRequests g)\<rparr>)"
| "run_handler (PokemonHandler cacheKey) (Failed e) g =
     Some (Rejected e, g\<lparr>activeRequests := Map_delete cacheKey (activeRequests g)\<rparr>)"
| "run_handler (MoveHandler nm) (Ok (MoveJson pw)) g =
     (let mv = \<lparr>Move.name = nm, power = pw\<rparr> in
      Some (Fulfilled (MoveData mv),
            g\<lparr>moveCache := Cache_set nm mv (moveCache g),
              activeRequests := Map_delete nm (activeRequests g)\<rparr>))"
| "run_handler (MoveHandler nm) (Failed e) g =
     Some (Rejected e, g\<lparr>activeRequests := Map_delete nm (activeRequests g)\<rparr>)"
| "run_handler (PokemonHandler cacheKey) (Ok (MoveJson pw)) g = None"
| "run_handler (MoveHandler nm) (Ok (PokemonJson data)) g = None"

definition settle :: "nat \<Rightarrow> outcome \<Rightarrow> globals \<Rightarrow> globals" where
  "settle r out g =
     (if r < length (requests g) \<and> state (requests g ! r) = Pending then
        (case run_handler (handler (requests g ! r)) out g of
           None \<Rightarrow> g
         | Some (st, g') \<Rightarrow>
             g'\<lparr>requests := (requests g')[r := (requests g' ! r)\<lparr>state := st\<rparr>],
                settled := settled g' @ [r]\<rparr>)
      else g)"

text \<open>
  The coordinator under any interleaving of callers and settlements: each call of
  \<open>getPokemon\<close> or \<open>getMove\<close> runs to its return without interruption (the functions
  have no \<open>await\<close>), and so does each handler.
\<close>

datatype call = GetPokemon nat | GetMove string string | Settle nat outcome

fun net_step :: "call \<Rightarrow> globals \<Rightarrow> globals" where
  "net_step (GetPokemon pid) g = snd (getPokemon pid g)"
| "net_step (GetMove u nm) g = snd (getMove u nm g)"
| "net_step (Settle r out) g = settle r out g"

definition net_run :: "call list \<Rightarrow> globals \<Rightarrow> globals" where
  "net_run cs g = foldl (\<lambda>g c. net_step c g) g cs"

text \<open>
  \<open>getPokemon\<close> and \<open>getMove\<close> are \<open>async\<close>: every call hands its caller a new promise
  object, which is resolved with what the body returns. The object is named by the number
  of async calls made before it; \<open>call_getPokemon pid pre\<close> is the promise a caller gets
  from \<open>getPokemon(pid)\<close> after the history \<open>pre\<close>.
\<close>

datatype promise = Promise nat handle

fun is_async_call :: "call \<Rightarrow> bool" where
  "is_async_call (GetPokemon pid) = True"
| "is_async_call (GetMove u nm) = True"
| "is_async_call (Settle r out) = False"

definition async_calls :: "call list \<Rightarrow> nat" where
  "async_calls cs = length (filter is_async_call cs)"

definition call_getPokemon :: "nat \<Rightarrow> call list \<Rightarrow> promise" where
  "call_getPokemon pid pre =
     Promise (async_calls pre) (fst (getPokemon pid (net_run pre init_globals)))"

definition call_getMove :: "string \<Rightarrow> string \<Rightarrow> call list \<Rightarrow> promise" where
  "call_getMove u nm pre =
     Promise (async_calls pre) (fst (getMove u nm (net_run pre init_globals)))"

section \<open>Random pokemon ids\<close>

text \<open>
  \<open>count\<close> and \<open>maxId\<close> are natural numbers (the component passes 2 and 151).
  \<open>Math.random()\<close> is an input: the list of the values it returns, each a rational
  \<open>r\<close> with \<open>0 \<le> r < 1\<close>. \<open>ids\<close> is a \<open>Set<number>\<close>, which keeps insertion order.
  The loop runs while the set is smaller than \<open>count\<close>; when the list of random values
  ends before that, the call has not returned (\<open>None\<close>).
\<close>

definition Set_add :: "nat \<Rightarrow> nat list \<Rightarrow> nat list" where
  "Set_add x ids = (if x \<in> set ids then ids else ids @ [x])"

definition random_index :: "rat \<Rightarrow> nat \<Rightarrow> nat" where
  "random_index r n = nat \<lfloor>r * of_nat n\<rfloor>"

fun random_ids_loop :: "nat \<Rightarrow> nat \<Rightarrow> nat list \<Rightarrow> rat list \<Rightarrow> nat list option" where
  "random_ids_loop count maxId ids [] = (if length ids < count then None else Some ids)"
| "random_ids_loop count maxId ids (r # rs) =
     (if length ids < count
      then random_ids_loop count maxId (Set_add (random_index r maxId + 1) ids) rs
      else Some ids)"

definition getRandomPokemonIds :: "nat \<Rightarrow> nat \<Rightarrow> rat list \<Rightarrow> nat list option" where
  "getRandomPokemonIds count maxId rs = random_ids_loop count maxId [] rs"

section \<open>The component GetRandomPokemon\<close>

text \<open>
  \<open>Promise.all\<close> over the promises of async calls. It rejects as soon as one of them
  rejects: with the error of a call that threw at once, else with that of the request
  that was rejected first; it is fulfilled with all the values once every one is there.
\<close>

datatype awaited = StillPending | Values "payload list" | Caught thrown

fun handle_state :: "globals \<Rightarrow> handle \<Rightarrow> settlement" where
  "handle_state g (Ready v) = Fulfilled v"
| "handle_state g (Thrown e) = Rejected e"
| "handle_state g (Waiting r) =
     (if r < length (requests g) then state (requests g ! r) else Pending)"

fun first_thrown :: "handle list \<Rightarrow> thrown option" where
  "first_thrown [] = None"
| "first_thrown (Thrown e # hs) = Some e"
| "first_thrown (Ready v # hs) = first_thrown hs"
| "first_thrown (Waiting r # hs) = first_thrown hs"

fun rejection :: "settlement \<Rightarrow> thrown option" where
  "rejection (Rejected e) = Some e"
| "rejection Pending = None"
| "rejection (Fulfilled v) = None"

definition first_rejected :: "handle list \<Rightarrow> globals \<Rightarrow> thrown option" where
  "first_rejected hs g =
     (case List.find (\<lambda>r. Waiting r \<in> set hs \<and> rejection (handle_state g (Waiting r)) \<noteq> None)
             (settled g) of
        None \<Rightarrow> None
      | Some r \<Rightarrow> rejection (handle_state g (Waiting r)))"

fun fulfilled_values :: "settlement list \<Rightarrow> payload list option" where
  "fulfilled_values [] = Some []"
| "fulfilled_values (Fulfilled v # ss) = map_option ((#) v) (fulfilled_values ss)"
| "fulfilled_values (Pending # ss) = None"
| "fulfilled_values (Rejected e # ss) = None"

definition Promise_all :: "handle list \<Rightarrow> globals \<Rightarrow> awaited" where
  "Promise_all hs g =
     (case first_thrown hs of
        Some e \<Rightarrow> Caught e
      | None \<Rightarrow>
         (case first_rejected hs g of
            Some e \<Rightarrow> Caught e
          | None \<Rightarrow>
             (case fulfilled_values (map (handle_state g) hs) of
                Some vs \<Rightarrow> Values vs
              | None \<Rightarrow> StillPending)))"

text \<open>
  The async arrow function mapped over \<open>[p1, p2]\<close>. Its promise is rejected when the
  body throws (reading \<open>moves.length\<close> of a value that is no pokemon, or \<open>.move\<close> of an
  index outside the array), and else pairs \<open>p\<close> with what the move promise delivers:
  the sentinel move at once when \<open>p\<close> has no moves, the result of \<open>getMove\<close> for the
  move at a random index otherwise. \<open>r\<close> is the value of \<open>Math.random()\<close> it reads.
\<close>

datatype closure = Threw thrown | Pairing Pokemon handle

fun with_move :: "payload \<Rightarrow> rat \<Rightarrow> globals \<Rightarrow> closure \<times> globals" where
  "with_move (MoveData m) r g =
     (Threw (Error ''Cannot read properties of undefined (reading 'length')''), g)"
| "with_move (PokemonData p) r g =
     (if length (moves p) = 0 then
        (Pairing p (Ready (MoveData \<lparr>Move.name = ''No moves available'', power = None\<rparr>)), g)
      else
        (let i = random_index r (length (moves p)) in
         if i < length (moves p) then
           (let randomMove = moves p ! i;
                (h, g') = getMove (snd randomMove) (fst randomMove) g
            in (Pairing p h, g'))
         else (Threw (Error ''Cannot read properties of undefined (reading 'move')''), g)))"

fun closure_handle :: "closure \<Rightarrow> handle" where
  "closure_handle (Threw e) = Thrown e"
| "closure_handle (Pairing p h) = h"

fun pair_up :: "closure list \<Rightarrow> payload list \<Rightarrow> payload PokemonWithMove list" where
  "pair_up (Pairing p h # cs) (m # ms) = \<lparr>pokemon = p, move = m\<rparr> # pair_up cs ms"
| "pair_up (Threw e # cs) ms = []"
| "pair_up [] ms = []"
| "pair_up cs [] = []"

text \<open>
  One call of \<open>getTwoRandomPokemons\<close> is a round: its own \<open>AbortController\<close> (the flag
  \<open>aborted\<close>) and the \<open>await\<close> it stands at. The component holds the rounds, the React
  state \<open>pokemons\<close>, \<open>loading\<close>, \<open>error\<close>, and \<open>abortControllerRef\<close>, the index of the
  round whose controller the ref holds.
\<close>

datatype phase = AwaitPokemons "handle list" | AwaitMoves "closure list" | Returned

record round =
  aborted :: bool
  phase :: phase

record component =
  net :: globals
  pokemons :: "payload PokemonWithMove list"
  loading :: bool
  error :: "string option"
  abortControllerRef :: "nat option"
  rounds :: "round list"

definition init :: component where
  "init = \<lparr>net = init_globals, pokemons = [], loading = False, error = None,
     abortControllerRef = None, rounds = []\<rparr>"

definition abort :: "nat \<Rightarrow> round list \<Rightarrow> round list" where
  "abort n rs = (if n < length rs then rs[n := (rs ! n)\<lparr>aborted := True\<rparr>] else rs)"

definition set_phase :: "nat \<Rightarrow> phase \<Rightarrow> component \<Rightarrow> component" where
  "set_phase n ph c = c\<lparr>rounds := (rounds c)[n := (rounds c ! n)\<lparr>phase := ph\<rparr>]\<rparr>"

text \<open>
  The call up to its first \<open>await\<close>: abort the controller of the ref, install a new one,
  \<open>setLoading(true)\<close>, \<open>setError(null)\<close>, draw two ids out of 151 and ask for both
  pokemons. \<open>rs\<close> are the random values the id loop reads; while they do not suffice the
  loop has not returned and nothing has happened yet.
\<close>

definition getTwoRandomPokemons :: "rat list \<Rightarrow> component \<Rightarrow> component" where
  "getTwoRandomPokemons rs c =
     (case getRandomPokemonIds 2 151 rs of
        None \<Rightarrow> c
      | Some ids \<Rightarrow>
         (case ids of
            [id1, id2] \<Rightarrow>
              (let rounds1 = (case abortControllerRef c of
                                None \<Rightarrow> rounds c
                              | Some prev \<Rightarrow> abort prev (rounds c));
                   (h1, g1) = getPokemon id1 (net c);
                   (h2, g2) = getPokemon id2 g1
               in c\<lparr>rounds := rounds1 @ [\<lparr>aborted = False, phase = AwaitPokemons [h1, h2]\<rparr>],
                    abortControllerRef := Some (length rounds1),
                    loading := True, error := None, net := g2\<rparr>)
          | _ \<Rightarrow> c))"

definition message_of :: "thrown \<Rightarrow> string" where
  "message_of err =
     (case err of Error message \<Rightarrow> message
      | NonError \<Rightarrow> ''Failed to fetch Pok'' @ [CHR 0xE9] @ ''mon'')"

definition catch_block :: "nat \<Rightarrow> thrown \<Rightarrow> component \<Rightarrow> component" where
  "catch_block n err c =
     set_phase n Returned
       (if \<not> aborted (rounds c ! n)
        then c\<lparr>error := Some (message_of err), pokemons := [], loading := False\<rparr>
        else c)"

text \<open>
  Round \<open>n\<close> goes on after the \<open>await\<close> it stands at, once that \<open>Promise.all\<close> has
  settled. After the pokemons: return when aborted, else start the two closures (\<open>r1\<close>,
  \<open>r2\<close> are their random values). After the moves: \<open>setPokemons\<close> and
  \<open>setLoading(false)\<close> unless aborted. A rejection goes to the \<open>catch\<close> block.
\<close>

definition resume :: "nat \<Rightarrow> rat \<Rightarrow> rat \<Rightarrow> component \<Rightarrow> component" where
  "resume n r1 r2 c =
     (if n < length (rounds c) then
        (case phase (rounds c ! n) of
           Returned \<Rightarrow> c
         | AwaitPokemons hs \<Rightarrow>
            (case Promise_all hs (net c) of
               StillPending \<Rightarrow> c
             | Caught err \<Rightarrow> catch_block n err c
             | Values ps \<Rightarrow>
                (if aborted (rounds c ! n) then set_phase n Returned c
                 else
                   (case ps of
                      [p1, p2] \<Rightarrow>
                        (let (c1, g1) = with_move p1 r1 (net c);
                             (c2, g2) = with_move p2 r2 g1
                         in set_phase n (AwaitMoves [c1, c2]) (c\<lparr>net := g2\<rparr>))
                    | _ \<Rightarrow> c)))
         | AwaitMoves cls \<Rightarrow>
            (case Promise_all (map closure_handle cls) (net c) of
               StillPending \<Rightarrow> c
             | Caught err \<Rightarrow> catch_block n err c
             | Values ms \<Rightarrow>
                set_phase n Returned
                  (if \<not> aborted (rounds c ! n)
                   then c\<lparr>pokemons := pair_up cls ms, loading := False\<rparr>
                   else c)))
      else c)"

text \<open>
  What can happen to the mounted component, in any order: a start of a round (mount, the
  battle button, the retry button), the continuation of a round, the settlement of an
  HTTP request, and the effect's cleanup, which aborts the controller of the ref.
\<close>

datatype event = StartBattle "rat list" | Resume nat rat rat | Response nat outcome | Unmount

fun step :: "event \<Rightarrow> component \<Rightarrow> component" where
  "step (StartBattle rs) c = getTwoRandomPokemons rs c"
| "step (Resume n r1 r2) c = resume n r1 r2 c"
| "step (Response r out) c = c\<lparr>net := settle r out (net c)\<rparr>"
| "step Unmount c =
     (case abortControllerRef c of
        None \<Rightarrow> c
      | Some n \<Rightarrow> c\<lparr>rounds := abort n (rounds c)\<rparr>)"

text \<open>The events that settle request \<open>r\<close>: its own response, nothing else.\<close>

fun settles :: "nat \<Rightarrow> event \<Rightarrow> bool" where
  "settles r (Response r' out) = (r' = r)"
| "settles r (StartBattle rs) = False"
| "settles r (Resume n r1 r2) = False"
| "settles r Unmount = False"

definition run :: "event list \<Rightarrow> component \<Rightarrow> component" where
  "run es c = foldl (\<lambda>c e. step e c) c es"

definition visible :: "component \<Rightarrow> payload PokemonWithMove list \<times> string option \<times> bool" where
  "visible c = (pokemons c, error c, loading c)"

section \<open>Invariants of the coordinator\<close>

text \<open>
  What holds of the caches, the registry and the requests after any sequence of calls and
  settlements: a registry entry names a pending request of its key; a pending request is
  registered under its key; the key of a pending request is not in the cache its handler
  writes; no request issued after a pending one carries its key; and the registry has one
  entry per key.
\<close>

fun handler_key :: "handler \<Rightarrow> string" where
  "handler_key (PokemonHandler k) = k"
| "handler_key (MoveHandler k) = k"

definition registered :: "globals \<Rightarrow> bool" where
  "registered g \<longleftrightarrow>
     (\<forall>k r. Map_get (activeRequests g) k = Some r \<longrightarrow>
        r < length (requests g) \<and> state (requests g ! r) = Pending
        \<and> request_key (requests g ! r) = k)"

definition pending_registered :: "globals \<Rightarrow> bool" where
  "pending_registered g \<longleftrightarrow>
     (\<forall>r < length (requests g). state (requests g ! r) = Pending \<longrightarrow>
        Map_get (activeRequests g) (request_key (requests g ! r)) = Some r)"

fun uncached :: "globals \<Rightarrow> handler \<Rightarrow> bool" where
  "uncached g (PokemonHandler k) = (Cache_get (pokemonCache g) k = None)"
| "uncached g (MoveHandler k) = (Cache_get (moveCache g) k = None)"

definition pending_uncached :: "globals \<Rightarrow> bool" where
  "pending_uncached g \<longleftrightarrow>
     (\<forall>r < length (requests g). state (requests g ! r) = Pending \<longrightarrow>
        uncached g (handler (requests g ! r)))"

definition pending_latest :: "globals \<Rightarrow> bool" where
  "pending_latest g \<longleftrightarrow>
     (\<forall>r < length (requests g). state (requests g ! r) = Pending \<longrightarrow>
        (\<forall>r'. r < r' \<and> r' < length (requests g) \<longrightarrow>
           request_key (requests g ! r') \<noteq> request_key (requests g ! r)))"

definition coordinated :: "globals \<Rightarrow> bool" where
  "coordinated g \<longleftrightarrow>
     registered g \<and> pending_registered g \<and> pending_uncached g \<and> pending_latest g
     \<and> distinct (map fst (activeRequests g))"

definition issue :: "string \<Rightarrow> request \<Rightarrow> globals \<Rightarrow> globals" where
  "issue k q g = g\<lparr>requests := requests g @ [q],
                    activeRequests := Map_set k (length (requests g)) (activeRequests g)\<rparr>"

section \<open>Invariant of the component\<close>

text \<open>The ref holds the controller of a round that exists.\<close>

definition ref_in_rounds :: "component \<Rightarrow> bool" where
  "ref_in_rounds c \<longleftrightarrow> (\<forall>n. abortControllerRef c = Some n \<longrightarrow> n < length (rounds c))"

section \<open>Example data\<close>

text \<open>Two pokemons for the concrete runs below: one with a move, one with none.\<close>

definition pikachu :: Pokemon where
  "pikachu = \<lparr>Pokemon.name = ''pikachu'', sprites = \<lparr>front_default = ''pikachu.png''\<rparr>,
     moves = [(''thunder'', ''https://pokeapi.co/api/v2/move/87/'')]\<rparr>"

definition ditto :: Pokemon where
  "ditto = \<lparr>Pokemon.name = ''ditto'', sprites = \<lparr>front_default = ''ditto.png''\<rparr>,
     moves = []\<rparr>"

section \<open>Properties of the battle outcome\<close>

lemma decisive_blow_not_tie: "DECISIVE_BLOW w m l \<noteq> TIE"
proof
  assume eq: "DECISIVE_BLOW w m l = TIE"
  have "CHR ''w'' \<in> set (DECISIVE_BLOW w m l)"
    by (simp add: DECISIVE_BLOW_def)
  moreover have "CHR ''w'' \<notin> set TIE"
    by (simp add: TIE_def)
  ultimately show False using eq by simp
qed



section \<open>Properties of the bounded cache\<close>

lemma Map_set_new: "k \<notin> fst ` set m \<Longrightarrow> Map_set k v m = m @ [(k, v)]"
  by (induction m) auto

lemma Map_delete_first:
  assumes "distinct (map fst (e # m))"
  shows "Map_delete (fst e) (e # m) = m"
proof -
  have "\<forall>x\<in>set m. fst x \<noteq> fst e" using assms by (auto simp: image_iff)
  then show ?thesis by (simp add: Map_delete_def)
qed

lemma Cache_set_new:
  assumes "distinct (map fst (cache c))" "k \<notin> fst ` set (cache c)"
    and "1 \<le> maxSize c" "length (cache c) \<le> maxSize c"
  shows "cache (Cache_set k v c) = drop (Suc (length (cache c)) - maxSize c) (cache c @ [(k, v)])"
proof (cases "length (cache c) \<ge> maxSize c")
  case True
  then obtain e m where em: "cache c = e # m"
    using assms(3) by (cases "cache c") auto
  have "Map_delete (fst e) (cache c) = m"
    using assms(1) em Map_delete_first[of e m] by simp
  moreover have "k \<notin> fst ` set m" using assms(2) em by auto
  moreover have "Suc (length (cache c)) - maxSize c = 1" using True assms(4) by simp
  ultimately show ?thesis
    using True em by (simp add: Cache_set_def Map_first_key_def Map_set_new)
next
  case False
  then show ?thesis using assms(2) by (simp add: Cache_set_def Map_set_new)
qed

lemma maxSize_Cache_set: "maxSize (Cache_set k v c) = maxSize c"
  by (simp add: Cache_set_def Let_def)

lemma cache_calls_Cons: "cache_calls (x # cs) c = cache_calls cs (cache_call x c)"
  by (simp add: cache_calls_def)

lemma window_step:
  assumes "1 \<le> N"
  shows "drop (Suc (length (drop (length old - N) old)) - N) (drop (length old - N) old @ [x])
       = drop (Suc (length old) - N) (old @ [x])"
proof (cases "length old \<le> N")
  case True
  then show ?thesis by simp
next
  case False
  then have "Suc (length (drop (length old - N) old)) - N = 1" using assms by simp
  moreover have "Suc (length old) - N = Suc (length old - N)" using False by simp
  ultimately show ?thesis using False by (simp add: drop_Suc tl_drop tl_append split: list.splits)
qed

lemma cache_calls_window:
  "first_writes cs c \<Longrightarrow> 1 \<le> maxSize c \<Longrightarrow> distinct (map fst (cache c)) \<Longrightarrow>
   cache c = drop (length old - maxSize c) old \<Longrightarrow>
   cache (cache_calls cs c)
     = drop (length (old @ inserted cs) - maxSize c) (old @ inserted cs)"
proof (induction cs arbitrary: c old)
  case Nil
  then show ?case by (simp add: cache_calls_def)
next
  case (Cons x cs)
  show ?case
  proof (cases x)
    case (Get k)
    then show ?thesis using Cons by (simp add: cache_calls_Cons)
  next
    case (Set k v)
    let ?c' = "Cache_set k v c"
    let ?N = "maxSize c"
    have fw: "Cache_get c k = None" "first_writes cs ?c'" using Cons.prems(1) Set by simp_all
    have fresh: "k \<notin> fst ` set (cache c)"
      using fw(1) by (simp add: Cache_get_def Map_get_def map_of_eq_None_iff)
    have len: "length (cache c) \<le> ?N" using Cons.prems(4) by simp
    have c': "cache ?c' = drop (Suc (length (cache c)) - ?N) (cache c @ [(k, v)])"
      by (rule Cache_set_new[OF Cons.prems(3) fresh Cons.prems(2) len])
    have win: "cache ?c' = drop (length (old @ [(k, v)]) - maxSize ?c') (old @ [(k, v)])"
      using c' window_step[OF Cons.prems(2), of old "(k, v)"] Cons.prems(4)
      by (simp add: maxSize_Cache_set)
    have "distinct (map fst (cache c @ [(k, v)]))" using Cons.prems(3) fresh by simp
    then have "distinct (drop (Suc (length (cache c)) - ?N) (map fst (cache c @ [(k, v)])))"
      by (rule distinct_drop)
    then have d: "distinct (map fst (cache ?c'))" by (simp only: c' drop_map)
    have n: "1 \<le> maxSize ?c'" using Cons.prems(2) by (simp add: maxSize_Cache_set)
    from Cons.IH[OF fw(2) n d win]
    show ?thesis using Set by (simp add: cache_calls_Cons maxSize_Cache_set)
  qed
qed

text \<open>
  C3, as the code has it. For every sequence of calls on a cache constructed with a
  capacity \<open>N\<close> of at least 1, in which more than \<open>N\<close> calls of \<open>set\<close> occur and each
  of them writes a key that is not in the cache at that moment: the cache afterwards holds
  exactly \<open>N\<close> entries, they are the last \<open>N\<close> written, in the order written, and the
  evicted entries are exactly the oldest written ones. Calls of \<open>get\<close> in between change
  nothing, and a key that was evicted may be written again.
\<close>

theorem Cache_set_fifo:
  assumes "first_writes cs (Cache_new N)" and "1 \<le> N" and "N < length (inserted cs)"
  shows "length (cache (cache_calls cs (Cache_new N))) = N
       \<and> cache (cache_calls cs (Cache_new N)) = drop (length (inserted cs) - N) (inserted cs)
       \<and> take (length (inserted cs) - N) (inserted cs) @ cache (cache_calls cs (Cache_new N))
           = inserted cs"
proof -
  have "cache (cache_calls cs (Cache_new N)) = drop (length (inserted cs) - N) (inserted cs)"
    using cache_calls_window[of cs "Cache_new N" "[]"] assms by (simp add: Cache_new_def)
  then show ?thesis using assms(3) by simp
qed

text \<open>
  Capacity 2 and the keys a, b, c, then a again after its eviction: c and the new a stay,
  in this order.
\<close>

theorem Cache_set_fifo_witness:
  "cache (cache_calls [Set ''a'' (1::nat), Get ''a'', Set ''b'' 2, Set ''c'' 3, Set ''a'' 4]
            (Cache_new 2))
     = [(''c'', 3), (''a'', 4)]"
  using Cache_set_fifo[of "[Set ''a'' (1::nat), Get ''a'', Set ''b'' 2, Set ''c'' 3, Set ''a'' 4]" 2]
  by (simp add: Cache_new_def Cache_get_def Cache_set_def Map_get_def Map_first_key_def
      Map_delete_def)

text \<open>
  C3 as stated fails on keys that repeat and on capacity 0: three calls of \<open>set\<close> with
  one key on a cache of capacity 2 leave one entry, not two; one call on a cache of
  capacity 0 leaves one entry, not none.
\<close>

theorem Cache_set_exactly_N_counterexample:
  "length (cache (cache_calls [Set ''a'' (1::nat), Set ''a'' 2, Set ''a'' 3] (Cache_new 2))) \<noteq> 2
   \<and> length (cache (cache_calls [Set ''a'' (1::nat)] (Cache_new 0))) \<noteq> 0"
  by (simp add: cache_calls_def Cache_new_def Cache_set_def Map_first_key_def Map_delete_def)

text \<open>
  C4. \<open>set\<close> tests only the size before it evicts: on a full cache of capacity 2
  holding \<open>a\<close> and \<open>b\<close>, writing the present key \<open>b\<close> again deletes \<open>a\<close>.
\<close>

theorem Cache_set_evicts_on_overwrite:
  "cache (cache_calls [Set ''a'' (1::nat), Set ''b'' 2, Set ''b'' 3] (Cache_new 2)) = [(''b'', 3)]"
  by (simp add: cache_calls_def Cache_new_def Cache_set_def Map_first_key_def Map_delete_def)

section \<open>Properties of the random ids\<close>

lemma random_index_less:
  assumes "0 \<le> r" "r < 1" "1 \<le> n"
  shows "random_index r n < n"
proof -
  have "r * of_nat n < of_nat n" using assms by simp
  then have "\<lfloor>r * of_nat n\<rfloor> < int n" by (simp add: floor_less_iff)
  moreover have f0: "0 \<le> \<lfloor>r * of_nat n\<rfloor>" using assms by simp
  ultimately show ?thesis using nat_less_iff[OF f0] by (simp add: random_index_def)
qed

lemma random_ids_loop_result:
  "random_ids_loop count maxId ids rs = Some out \<Longrightarrow> 1 \<le> maxId \<Longrightarrow>
   \<forall>r\<in>set rs. 0 \<le> r \<and> r < 1 \<Longrightarrow>
   distinct ids \<Longrightarrow> length ids \<le> count \<Longrightarrow> \<forall>x\<in>set ids. 1 \<le> x \<and> x \<le> maxId \<Longrightarrow>
   length out = count \<and> distinct out \<and> (\<forall>x\<in>set out. 1 \<le> x \<and> x \<le> maxId)"
proof (induction rs arbitrary: ids)
  case Nil
  then show ?case by (auto split: if_splits)
next
  case (Cons r rs)
  show ?case
  proof (cases "length ids < count")
    case False
    then show ?thesis using Cons.prems by auto
  next
    case True
    let ?x = "random_index r maxId + 1"
    let ?ids = "Set_add ?x ids"
    have lt: "random_index r maxId < maxId"
      using Cons.prems(2,3) by (simp add: random_index_less)
    have run: "random_ids_loop count maxId ?ids rs = Some out"
      using Cons.prems(1) True by simp
    have a: "distinct ?ids" using Cons.prems(4) by (simp add: Set_add_def)
    have b: "length ?ids \<le> count" using True by (simp add: Set_add_def)
    have c: "\<forall>x\<in>set ?ids. 1 \<le> x \<and> x \<le> maxId"
      using Cons.prems(6) lt by (auto simp: Set_add_def)
    have d: "\<forall>r\<in>set rs. 0 \<le> r \<and> r < 1" using Cons.prems(3) by simp
    show ?thesis by (rule Cons.IH[OF run Cons.prems(2) d a b c])
  qed
qed

text \<open>
  C10, as the code has it. Whenever \<open>getRandomPokemonIds(count, maxId)\<close> returns, for a
  \<open>maxId\<close> of at least 1 and random values in \<open>[0, 1)\<close>, its result contains exactly
  \<open>count\<close> pairwise distinct integers, each between 1 and \<open>maxId\<close> inclusive. The two
  ids of a round come from the call with count 2 and maxId 151, so they are distinct.
\<close>

theorem getRandomPokemonIds_distinct_in_range:
  assumes "getRandomPokemonIds count maxId rs = Some ids"
    and "1 \<le> maxId"
    and "\<forall>r\<in>set rs. 0 \<le> r \<and> r < 1"
  shows "length ids = count \<and> distinct ids \<and> (\<forall>x\<in>set ids. 1 \<le> x \<and> x \<le> maxId)"
  using random_ids_loop_result[of count maxId "[]" rs ids] assms
  by (simp add: getRandomPokemonIds_def)

text \<open>The random values 0.3, 0.3 and 0.9 give the ids 46, 46 again, and 136.\<close>

lemma ids_example: "getRandomPokemonIds 2 151 [3/10, 3/10, 9/10] = Some [46, 136]"
  by code_simp

theorem getRandomPokemonIds_distinct_in_range_witness:
  "getRandomPokemonIds 2 151 [3/10, 3/10, 9/10] = Some [46, 136]
   \<and> length [46, 136 :: nat] = 2 \<and> distinct [46, 136 :: nat]"
  using getRandomPokemonIds_distinct_in_range[of 2 151 "[3/10, 3/10, 9/10]" "[46, 136]"]
    ids_example
  by simp

text \<open>
  C10 as stated fails for \<open>maxId = 0\<close>: \<open>Math.floor(Math.random() * 0) + 1\<close> is 1, so
  the call with count 1 returns \<open>[1]\<close>, and 1 is not between 1 and 0.
\<close>

theorem getRandomPokemonIds_maxId_0_counterexample:
  "getRandomPokemonIds 1 0 [1/2] = Some [1] \<and> \<not> (1::nat) \<le> 0"
  by code_simp

section \<open>Properties of the coordinator\<close>

lemma Map_get_Map_set [simp]:
  "Map_get (Map_set k v m) k' = (if k' = k then Some v else Map_get m k')"
  by (induction m) (auto simp: Map_get_def)

lemma Map_get_Map_delete [simp]:
  "Map_get (Map_delete k m) k' = (if k' = k then None else Map_get m k')"
  by (induction m) (auto simp: Map_get_def Map_delete_def)

lemma keys_Map_set: "fst ` set (Map_set k v m) = insert k (fst ` set m)"
  by (induction m) auto

lemma distinct_Map_set: "distinct (map fst m) \<Longrightarrow> distinct (map fst (Map_set k v m))"
  by (induction m) (auto simp: keys_Map_set)

lemma distinct_Map_delete: "distinct (map fst m) \<Longrightarrow> distinct (map fst (Map_delete k m))"
  by (simp add: Map_delete_def distinct_map_filter)

lemma Cache_get_Cache_set_same: "Cache_get (Cache_set k v c) k = Some v"
  by (simp add: Cache_get_def Cache_set_def Let_def)

lemma Cache_get_Cache_set_None:
  "Cache_get c k' = None \<Longrightarrow> k' \<noteq> k \<Longrightarrow> Cache_get (Cache_set k v c) k' = None"
  by (simp add: Cache_get_def Cache_set_def Let_def split: option.splits)

lemma getPokemon_cases:
  "getPokemon pid g =
     (case Cache_get (pokemonCache g) (toString pid) of
        Some cached \<Rightarrow> (Ready (PokemonData cached), g)
      | None \<Rightarrow>
         (case Map_get (activeRequests g) (toString pid) of
            Some r \<Rightarrow> (Waiting r, g)
          | None \<Rightarrow> (Waiting (length (requests g)),
              issue (toString pid)
                \<lparr>url = ''https://pokeapi.co/api/v2/pokemon/'' @ toString pid,
                 handler = PokemonHandler (toString pid), state = Pending\<rparr> g)))"
  by (simp add: getPokemon_def issue_def Let_def split: option.splits)

lemma getMove_cases:
  "getMove u nm g =
     (case Cache_get (moveCache g) nm of
        Some cached \<Rightarrow> (Ready (MoveData cached), g)
      | None \<Rightarrow>
         (case Map_get (activeRequests g) nm of
            Some r \<Rightarrow> (Waiting r, g)
          | None \<Rightarrow> (Waiting (length (requests g)),
              issue nm \<lparr>url = u, handler = MoveHandler nm, state = Pending\<rparr> g)))"
  by (simp add: getMove_def issue_def Let_def split: option.splits)

lemma uncached_issue [simp]: "uncached (issue k q g) h = uncached g h"
  by (cases h) (simp_all add: issue_def)

lemma registeredD:
  "registered g \<Longrightarrow> Map_get (activeRequests g) k = Some r \<Longrightarrow>
   r < length (requests g) \<and> state (requests g ! r) = Pending
   \<and> request_key (requests g ! r) = k"
  by (simp add: registered_def)

lemma pending_registeredD:
  "pending_registered g \<Longrightarrow> r < length (requests g) \<Longrightarrow>
   state (requests g ! r) = Pending \<Longrightarrow>
   Map_get (activeRequests g) (request_key (requests g ! r)) = Some r"
  by (simp add: pending_registered_def)

lemma pending_uncachedD:
  "pending_uncached g \<Longrightarrow> r < length (requests g) \<Longrightarrow>
   state (requests g ! r) = Pending \<Longrightarrow> uncached g (handler (requests g ! r))"
  by (simp add: pending_uncached_def)

lemma pending_latestD:
  "pending_latest g \<Longrightarrow> r < length (requests g) \<Longrightarrow>
   state (requests g ! r) = Pending \<Longrightarrow> r < r' \<Longrightarrow> r' < length (requests g) \<Longrightarrow>
   request_key (requests g ! r') \<noteq> request_key (requests g ! r)"
  by (simp add: pending_latest_def)

lemma coordinated_issue:
  assumes inv: "coordinated g"
    and key: "request_key q = k" and pend: "state q = Pending"
    and free: "Map_get (activeRequests g) k = None"
    and unc: "uncached g (handler q)"
  shows "coordinated (issue k q g)"
proof -
  have reg: "registered g" and preg: "pending_registered g" and punc: "pending_uncached g"
    and plat: "pending_latest g" and dist: "distinct (map fst (activeRequests g))"
    using inv by (simp_all add: coordinated_def)
  have nokey: "\<And>r. r < length (requests g) \<Longrightarrow> state (requests g ! r) = Pending \<Longrightarrow>
      request_key (requests g ! r) \<noteq> k"
    using preg free by (auto simp: pending_registered_def)
  have rq: "requests (issue k q g) = requests g @ [q]"
    and ar: "activeRequests (issue k q g) = Map_set k (length (requests g)) (activeRequests g)"
    by (simp_all add: issue_def)
  have 1: "registered (issue k q g)"
    unfolding registered_def rq ar
  proof (intro allI impI)
    fix ka r
    assume a: "Map_get (Map_set k (length (requests g)) (activeRequests g)) ka = Some r"
    show "r < length (requests g @ [q]) \<and> state ((requests g @ [q]) ! r) = Pending
        \<and> request_key ((requests g @ [q]) ! r) = ka"
    proof (cases "ka = k")
      case True
      then have "r = length (requests g)" using a by simp
      then show ?thesis using True key pend by simp
    next
      case False
      then have "Map_get (activeRequests g) ka = Some r" using a by simp
      from registeredD[OF reg this] show ?thesis by (simp add: nth_append)
    qed
  qed
  have 2: "pending_registered (issue k q g)"
    unfolding pending_registered_def rq ar
  proof (intro allI impI)
    fix r
    assume r: "r < length (requests g @ [q])" and p: "state ((requests g @ [q]) ! r) = Pending"
    show "Map_get (Map_set k (length (requests g)) (activeRequests g))
            (request_key ((requests g @ [q]) ! r)) = Some r"
    proof (cases "r < length (requests g)")
      case True
      then have p': "state (requests g ! r) = Pending" using p by (simp add: nth_append)
      from nokey[OF True p'] pending_registeredD[OF preg True p'] True
      show ?thesis by (simp add: nth_append)
    next
      case False
      then have "r = length (requests g)" using r by simp
      then show ?thesis using key by simp
    qed
  qed
  have 3: "pending_uncached (issue k q g)"
    unfolding pending_uncached_def rq
  proof (intro allI impI)
    fix r
    assume r: "r < length (requests g @ [q])" and p: "state ((requests g @ [q]) ! r) = Pending"
    show "uncached (issue k q g) (handler ((requests g @ [q]) ! r))"
    proof (cases "r < length (requests g)")
      case True
      then have p': "state (requests g ! r) = Pending" using p by (simp add: nth_append)
      from pending_uncachedD[OF punc True p'] True show ?thesis by (simp add: nth_append)
    next
      case False
      then have "r = length (requests g)" using r by simp
      then show ?thesis using unc by simp
    qed
  qed
  have 4: "pending_latest (issue k q g)"
    unfolding pending_latest_def rq
  proof (intro allI impI, elim conjE)
    fix r r'
    assume r: "r < length (requests g @ [q])" and p: "state ((requests g @ [q]) ! r) = Pending"
      and lt: "r < r'" and r': "r' < length (requests g @ [q])"
    have rl: "r < length (requests g)" using lt r' by simp
    then have p': "state (requests g ! r) = Pending" using p by (simp add: nth_append)
    show "request_key ((requests g @ [q]) ! r') \<noteq> request_key ((requests g @ [q]) ! r)"
    proof (cases "r' < length (requests g)")
      case True
      from pending_latestD[OF plat rl p' lt True] rl True
      show ?thesis by (simp add: nth_append)
    next
      case False
      then have "r' = length (requests g)" using r' by simp
      then show ?thesis using nokey[OF rl p'] key rl
        by (simp add: nth_append)
    qed
  qed
  have 5: "distinct (map fst (activeRequests (issue k q g)))"
    using dist by (simp add: issue_def distinct_Map_set)
  show ?thesis using 1 2 3 4 5 by (simp add: coordinated_def)
qed

lemma coordinated_getPokemon: "coordinated g \<Longrightarrow> coordinated (snd (getPokemon pid g))"
  by (auto simp: getPokemon_cases request_key_def split: option.splits intro!: coordinated_issue)

lemma coordinated_getMove: "coordinated g \<Longrightarrow> coordinated (snd (getMove u nm g))"
  by (auto simp: getMove_cases request_key_def split: option.splits intro!: coordinated_issue)


lemma request_key_handler: "request_key q = handler_key (handler q)"
  by (cases "handler q") (simp_all add: request_key_def)

lemma coordinated_settled:
  assumes inv: "coordinated g"
    and r: "r < length (requests g)" and p: "state (requests g ! r) = Pending"
    and st: "st \<noteq> Pending"
    and rq: "requests g' = requests g"
    and ar: "activeRequests g' = Map_delete (request_key (requests g ! r)) (activeRequests g)"
    and unc: "\<And>h. uncached g h \<Longrightarrow> handler_key h \<noteq> request_key (requests g ! r) \<Longrightarrow> uncached g' h"
    and g'': "requests g'' = (requests g)[r := (requests g ! r)\<lparr>state := st\<rparr>]"
             "activeRequests g'' = activeRequests g'"
             "\<And>h. uncached g'' h = uncached g' h"
  shows "coordinated g''"
proof -
  let ?k = "request_key (requests g ! r)"
  have reg: "registered g" and preg: "pending_registered g" and punc: "pending_uncached g"
    and plat: "pending_latest g" and dist: "distinct (map fst (activeRequests g))"
    using inv by (simp_all add: coordinated_def)
  have regr: "Map_get (activeRequests g) ?k = Some r"
    by (rule pending_registeredD[OF preg r p])
  have other: "\<And>r'. r' < length (requests g) \<Longrightarrow> state (requests g'' ! r') = Pending \<Longrightarrow>
      r' \<noteq> r \<and> state (requests g ! r') = Pending
      \<and> request_key (requests g ! r') \<noteq> ?k"
  proof -
    fix r' assume r': "r' < length (requests g)" and p': "state (requests g'' ! r') = Pending"
    have ne: "r' \<noteq> r" using p' st r by (auto simp: g''(1))
    then have pg: "state (requests g ! r') = Pending" using p' by (simp add: g''(1))
    have "Map_get (activeRequests g) (request_key (requests g ! r')) = Some r'"
      by (rule pending_registeredD[OF preg r' pg])
    then have "request_key (requests g ! r') \<noteq> ?k" using regr ne by auto
    then show "r' \<noteq> r \<and> state (requests g ! r') = Pending
      \<and> request_key (requests g ! r') \<noteq> ?k" using ne pg by simp
  qed
  have keys: "\<And>r'. r' < length (requests g) \<Longrightarrow>
      request_key (requests g'' ! r') = request_key (requests g ! r')
      \<and> handler (requests g'' ! r') = handler (requests g ! r')"
    using r by (auto simp: g''(1) nth_list_update request_key_def)
  have 1: "registered g''"
    unfolding registered_def
  proof (intro allI impI)
    fix ka r'
    assume "Map_get (activeRequests g'') ka = Some r'"
    then have a: "ka \<noteq> ?k" "Map_get (activeRequests g) ka = Some r'"
      by (auto simp: g''(2) ar split: if_splits)
    from registeredD[OF reg a(2)] have b: "r' < length (requests g)"
      "state (requests g ! r') = Pending" "request_key (requests g ! r') = ka" by simp_all
    have "r' \<noteq> r" using a(1) b(3) by auto
    then show "r' < length (requests g'') \<and> state (requests g'' ! r') = Pending
        \<and> request_key (requests g'' ! r') = ka"
      using b by (simp add: g''(1))
  qed
  have 2: "pending_registered g''"
    unfolding pending_registered_def
  proof (intro allI impI)
    fix r' assume "r' < length (requests g'')" and p': "state (requests g'' ! r') = Pending"
    then have r': "r' < length (requests g)" by (simp add: g''(1))
    from other[OF r' p'] pending_registeredD[OF preg r'] keys[OF r']
    show "Map_get (activeRequests g'') (request_key (requests g'' ! r')) = Some r'"
      by (simp add: g''(2) ar)
  qed
  have 3: "pending_uncached g''"
    unfolding pending_uncached_def
  proof (intro allI impI)
    fix r' assume "r' < length (requests g'')" and p': "state (requests g'' ! r') = Pending"
    then have r': "r' < length (requests g)" by (simp add: g''(1))
    from other[OF r' p'] have pg: "state (requests g ! r') = Pending"
      and nk: "request_key (requests g ! r') \<noteq> ?k" by simp_all
    have "uncached g' (handler (requests g ! r'))"
      using unc[OF pending_uncachedD[OF punc r' pg]] nk
      by (simp add: request_key_handler)
    then show "uncached g'' (handler (requests g'' ! r'))"
      using keys[OF r'] by (simp add: g''(3))
  qed
  have 4: "pending_latest g''"
    unfolding pending_latest_def
  proof (intro allI impI, elim conjE)
    fix r1 r2
    assume "r1 < length (requests g'')" and p1: "state (requests g'' ! r1) = Pending"
      and lt: "r1 < r2" and "r2 < length (requests g'')"
    then have r1: "r1 < length (requests g)" and r2: "r2 < length (requests g)"
      by (simp_all add: g''(1))
    from other[OF r1 p1] have pg: "state (requests g ! r1) = Pending" by simp
    from pending_latestD[OF plat r1 pg lt r2] keys[OF r1] keys[OF r2]
    show "request_key (requests g'' ! r2) \<noteq> request_key (requests g'' ! r1)"
      by simp
  qed
  have 5: "distinct (map fst (activeRequests g''))"
    using dist by (simp add: g''(2) ar distinct_Map_delete)
  show ?thesis using 1 2 3 4 5 by (simp add: coordinated_def)
qed

lemma run_handler_shape:
  "run_handler h out g = Some (st, g') \<Longrightarrow>
   st \<noteq> Pending \<and> requests g' = requests g
   \<and> activeRequests g' = Map_delete (handler_key h) (activeRequests g)"
  by (induction h out g rule: run_handler.induct) (auto simp: Let_def)

lemma run_handler_uncached:
  "run_handler h out g = Some (st, g') \<Longrightarrow> uncached g h' \<Longrightarrow>
   handler_key h' \<noteq> handler_key h \<Longrightarrow> uncached g' h'"
  by (induction h out g rule: run_handler.induct; cases h')
     (auto simp: Let_def Cache_get_Cache_set_None)

lemma coordinated_settle: "coordinated g \<Longrightarrow> coordinated (settle r out g)"
proof (cases "r < length (requests g) \<and> state (requests g ! r) = Pending")
  case False
  assume "coordinated g"
  then show ?thesis using False by (auto simp: settle_def)
next
  case True
  assume inv: "coordinated g"
  from True have r: "r < length (requests g)" and p: "state (requests g ! r) = Pending"
    by simp_all
  show ?thesis
  proof (cases "run_handler (handler (requests g ! r)) out g")
    case None
    then show ?thesis using inv by (simp add: settle_def)
  next
    case (Some a)
    obtain st g' where a: "a = (st, g')" by (cases a)
    have eq: "settle r out g = g'\<lparr>requests := (requests g')[r := (requests g' ! r)\<lparr>state := st\<rparr>],
        settled := settled g' @ [r]\<rparr>"
      using True Some a by (simp add: settle_def)
    have rh: "run_handler (handler (requests g ! r)) out g = Some (st, g')"
      using Some a by simp
    have props: "st \<noteq> Pending \<and> requests g' = requests g
        \<and> activeRequests g' = Map_delete (request_key (requests g ! r)) (activeRequests g)
        \<and> (\<forall>h. uncached g h \<longrightarrow> handler_key h \<noteq> request_key (requests g ! r) \<longrightarrow> uncached g' h)"
      using run_handler_shape[OF rh] run_handler_uncached[OF rh]
      by (simp add: request_key_handler)
    show ?thesis
      unfolding eq
    proof (rule coordinated_settled[OF inv r p, of st g'])
      show "st \<noteq> Pending" using props by simp
      show "requests g' = requests g" using props by simp
      show "activeRequests g' = Map_delete (request_key (requests g ! r)) (activeRequests g)"
        using props by simp
      show "\<And>h. uncached g h \<Longrightarrow> handler_key h \<noteq> request_key (requests g ! r) \<Longrightarrow> uncached g' h"
        using props by simp
      show "requests (g'\<lparr>requests := (requests g')[r := (requests g' ! r)\<lparr>state := st\<rparr>],
        settled := settled g' @ [r]\<rparr>) = (requests g)[r := (requests g ! r)\<lparr>state := st\<rparr>]"
        using props by simp
      show "activeRequests (g'\<lparr>requests := (requests g')[r := (requests g' ! r)\<lparr>state := st\<rparr>],
        settled := settled g' @ [r]\<rparr>) = activeRequests g'" by simp
      show "\<And>h. uncached (g'\<lparr>requests := (requests g')[r := (requests g' ! r)\<lparr>state := st\<rparr>],
        settled := settled g' @ [r]\<rparr>) h = uncached g' h"
        by (case_tac h) simp_all
    qed
  qed
qed

lemma coordinated_init: "coordinated init_globals"
  by (simp add: coordinated_def registered_def pending_registered_def pending_uncached_def
      pending_latest_def init_globals_def Map_get_def)

lemma coordinated_net_step: "coordinated g \<Longrightarrow> coordinated (net_step c g)"
  by (cases c) (simp_all add: coordinated_getPokemon coordinated_getMove coordinated_settle)

lemma coordinated_net_run: "coordinated g \<Longrightarrow> coordinated (net_run cs g)"
  by (induction cs arbitrary: g) (simp_all add: net_run_def coordinated_net_step)

lemma getPokemon_hit:
  "Cache_get (pokemonCache g) (toString pid) = Some cached \<Longrightarrow>
   getPokemon pid g = (Ready (PokemonData cached), g)"
  by (simp add: getPokemon_def)

lemma getMove_hit:
  "Cache_get (moveCache g) nm = Some cached \<Longrightarrow>
   getMove u nm g = (Ready (MoveData cached), g)"
  by (simp add: getMove_def)

text \<open>
  C6. For every key present in the backing cache, \<open>getPokemon\<close> (keyed by the id's
  decimal string) and \<open>getMove\<close> (keyed by the move's name) return the cached value and
  leave the module's state as it is: no request is issued, no registry entry created.
\<close>

theorem cache_hit_no_request:
  "(Cache_get (pokemonCache g) (toString pid) = Some p \<longrightarrow>
      getPokemon pid g = (Ready (PokemonData p), g))
   \<and> (Cache_get (moveCache g) nm = Some m \<longrightarrow>
      getMove u nm g = (Ready (MoveData m), g))"
  by (simp add: getPokemon_hit getMove_hit)

lemma getPokemon_requests:
  "r < length (requests g) \<Longrightarrow>
   r < length (requests (snd (getPokemon pid g)))
   \<and> handler (requests (snd (getPokemon pid g)) ! r) = handler (requests g ! r)"
  by (simp add: getPokemon_cases issue_def nth_append split: option.splits)

lemma getMove_requests:
  "r < length (requests g) \<Longrightarrow>
   r < length (requests (snd (getMove u nm g)))
   \<and> handler (requests (snd (getMove u nm g)) ! r) = handler (requests g ! r)"
  by (simp add: getMove_cases issue_def nth_append split: option.splits)

lemma settle_requests:
  "r < length (requests g) \<Longrightarrow>
   r < length (requests (settle r' out g))
   \<and> handler (requests (settle r' out g) ! r) = handler (requests g ! r)"
  by (auto simp: settle_def nth_list_update dest!: run_handler_shape split: option.splits)

lemma net_step_requests:
  "r < length (requests g) \<Longrightarrow>
   r < length (requests (net_step c g))
   \<and> handler (requests (net_step c g) ! r) = handler (requests g ! r)"
  by (cases c) (simp_all add: getPokemon_requests getMove_requests settle_requests)

lemma net_run_requests:
  "r < length (requests g) \<Longrightarrow>
   r < length (requests (net_run cs g))
   \<and> handler (requests (net_run cs g) ! r) = handler (requests g ! r)"
proof (induction cs arbitrary: g)
  case Nil
  then show ?case by (simp add: net_run_def)
next
  case (Cons c cs)
  have eq: "net_run (c # cs) g = net_run cs (net_step c g)" by (simp add: net_run_def)
  from net_step_requests[OF Cons.prems, of c] Cons.IH[of "net_step c g"]
  show ?case unfolding eq by simp
qed

lemma net_run_append: "net_run (cs @ cs') g = net_run cs' (net_run cs g)"
  by (simp add: net_run_def)

lemma coordinated_reachable: "coordinated (net_run cs init_globals)"
  by (simp add: coordinated_net_run coordinated_init)

lemma pending_getPokemon:
  assumes "coordinated g" "r < length (requests g)" "state (requests g ! r) = Pending"
    and "handler (requests g ! r) = PokemonHandler (toString pid)"
  shows "getPokemon pid g = (Waiting r, g)"
proof -
  have "pending_uncached g" "pending_registered g"
    using assms(1) by (simp_all add: coordinated_def)
  note inv = this
  have "uncached g (handler (requests g ! r))"
    by (rule pending_uncachedD[OF inv(1) assms(2,3)])
  then have miss: "Cache_get (pokemonCache g) (toString pid) = None" using assms(4) by simp
  have "Map_get (activeRequests g) (request_key (requests g ! r)) = Some r"
    by (rule pending_registeredD[OF inv(2) assms(2,3)])
  then have "Map_get (activeRequests g) (toString pid) = Some r"
    using assms(4) by (simp add: request_key_def)
  then show ?thesis using miss by (simp add: getPokemon_cases)
qed

lemma pending_getMove:
  assumes "coordinated g" "r < length (requests g)" "state (requests g ! r) = Pending"
    and "handler (requests g ! r) = MoveHandler nm"
  shows "getMove u nm g = (Waiting r, g)"
proof -
  have "pending_uncached g" "pending_registered g"
    using assms(1) by (simp_all add: coordinated_def)
  note inv = this
  have "uncached g (handler (requests g ! r))"
    by (rule pending_uncachedD[OF inv(1) assms(2,3)])
  then have miss: "Cache_get (moveCache g) nm = None" using assms(4) by simp
  have "Map_get (activeRequests g) (request_key (requests g ! r)) = Some r"
    by (rule pending_registeredD[OF inv(2) assms(2,3)])
  then have "Map_get (activeRequests g) nm = Some r"
    using assms(4) by (simp add: request_key_def)
  then show ?thesis using miss by (simp add: getMove_cases)
qed

lemma getPokemon_started:
  assumes "getPokemon pid g = (h, g')" "length (requests g') = Suc (length (requests g))"
  shows "h = Waiting (length (requests g)) \<and> g' = snd (getPokemon pid g)
       \<and> handler (requests g' ! length (requests g)) = PokemonHandler (toString pid)"
  using assms by (auto simp: getPokemon_cases issue_def split: option.splits)

lemma getMove_started:
  assumes "getMove u nm g = (h, g')" "length (requests g') = Suc (length (requests g))"
  shows "h = Waiting (length (requests g)) \<and> g' = snd (getMove u nm g)
       \<and> handler (requests g' ! length (requests g)) = MoveHandler nm"
  using assms by (auto simp: getMove_cases issue_def split: option.splits)

lemma pending_is_latest:
  assumes "coordinated g" "r < length (requests g)" "state (requests g ! r) = Pending"
  shows "\<forall>r'. r < r' \<and> r' < length (requests g) \<longrightarrow>
           request_key (requests g ! r') \<noteq> request_key (requests g ! r)"
  using assms by (simp add: coordinated_def pending_latest_def)

lemma filter_drop_single:
  assumes "r < length xs" "P (xs ! r)"
    and "\<forall>r'. r < r' \<and> r' < length xs \<longrightarrow> \<not> P (xs ! r')"
  shows "filter P (drop r xs) = [xs ! r]"
proof -
  have "\<forall>x\<in>set (drop (Suc r) xs). \<not> P x"
  proof
    fix x assume "x \<in> set (drop (Suc r) xs)"
    then obtain i where "i < length (drop (Suc r) xs)" "x = drop (Suc r) xs ! i"
      by (auto simp: in_set_conv_nth)
    then have "Suc r + i < length xs" "x = xs ! (Suc r + i)" by simp_all
    then show "\<not> P x" using assms(3) by simp
  qed
  then have "filter P (drop (Suc r) xs) = []" by (simp add: filter_empty_conv)
  moreover have "drop r xs = xs ! r # drop (Suc r) xs"
    using assms(1) by (simp add: Cons_nth_drop_Suc)
  ultimately show ?thesis using assms(2) by simp
qed

lemma once_pokemon:
  assumes g0: "g0 = net_run pre init_globals" and r: "r = length (requests g0)"
    and g2: "g2 = net_run (pre @ GetPokemon pid # mid) init_globals"
    and miss: "Cache_get (pokemonCache g0) (toString pid) = None"
    and free: "Map_get (activeRequests g0) (toString pid) = None"
    and pend: "state (requests g2 ! r) = Pending"
  shows "requests (snd (getPokemon pid g0))
           = requests g0 @ [\<lparr>url = ''https://pokeapi.co/api/v2/pokemon/'' @ toString pid,
                handler = PokemonHandler (toString pid), state = Pending\<rparr>]
       \<and> call_getPokemon pid pre = Promise (async_calls pre) (Waiting r)
       \<and> call_getPokemon pid (pre @ GetPokemon pid # mid)
           = Promise (async_calls (pre @ GetPokemon pid # mid)) (Waiting r)
       \<and> getPokemon pid g2 = (Waiting r, g2)
       \<and> filter (\<lambda>q. request_key q = toString pid) (drop r (requests g2)) = [requests g2 ! r]
       \<and> distinct (map fst (activeRequests g2))"
proof -
  let ?g1 = "snd (getPokemon pid g0)"
  have first: "getPokemon pid g0 = (Waiting r, ?g1)"
    and rq: "requests ?g1 = requests g0 @ [\<lparr>url = ''https://pokeapi.co/api/v2/pokemon/'' @ toString pid,
                handler = PokemonHandler (toString pid), state = Pending\<rparr>]"
    using miss free r by (simp_all add: getPokemon_cases issue_def)
  have g2': "g2 = net_run mid ?g1" using g2 g0 by (simp add: net_run_def)
  have inv: "coordinated g2" using g2 by (simp only: coordinated_reachable)
  have rl: "r < length (requests ?g1)" using rq r by simp
  have hd: "handler (requests ?g1 ! r) = PokemonHandler (toString pid)" using rq r by simp
  from net_run_requests[OF rl, of mid] hd
  have r2: "r < length (requests g2)"
    and hd2: "handler (requests g2 ! r) = PokemonHandler (toString pid)"
    unfolding g2' by simp_all
  have key: "request_key (requests g2 ! r) = toString pid"
    using hd2 by (simp add: request_key_def)
  have second: "getPokemon pid g2 = (Waiting r, g2)"
    by (rule pending_getPokemon[OF inv r2 pend hd2])
  have once: "filter (\<lambda>q. request_key q = toString pid) (drop r (requests g2)) = [requests g2 ! r]"
    using pending_is_latest[OF inv r2 pend] key by (intro filter_drop_single[OF r2]) simp_all
  have "distinct (map fst (activeRequests g2))" using inv by (simp add: coordinated_def)
  moreover have "fst (getPokemon pid g0) = Waiting r" using first by (metis fst_conv)
  moreover have "fst (getPokemon pid g2) = Waiting r" using second by (metis fst_conv)
  ultimately show ?thesis
    using rq second once unfolding call_getPokemon_def g0 g2 by simp
qed

lemma once_move:
  assumes g0: "g0 = net_run pre init_globals" and r: "r = length (requests g0)"
    and g2: "g2 = net_run (pre @ GetMove u nm # mid) init_globals"
    and miss: "Cache_get (moveCache g0) nm = None"
    and free: "Map_get (activeRequests g0) nm = None"
    and pend: "state (requests g2 ! r) = Pending"
  shows "requests (snd (getMove u nm g0))
           = requests g0 @ [\<lparr>url = u, handler = MoveHandler nm, state = Pending\<rparr>]
       \<and> call_getMove u nm pre = Promise (async_calls pre) (Waiting r)
       \<and> call_getMove u' nm (pre @ GetMove u nm # mid)
           = Promise (async_calls (pre @ GetMove u nm # mid)) (Waiting r)
       \<and> getMove u' nm g2 = (Waiting r, g2)
       \<and> filter (\<lambda>q. request_key q = nm) (drop r (requests g2)) = [requests g2 ! r]
       \<and> distinct (map fst (activeRequests g2))"
proof -
  let ?g1 = "snd (getMove u nm g0)"
  have first: "getMove u nm g0 = (Waiting r, ?g1)"
    and rq: "requests ?g1 = requests g0 @ [\<lparr>url = u, handler = MoveHandler nm, state = Pending\<rparr>]"
    using miss free r by (simp_all add: getMove_cases issue_def)
  have g2': "g2 = net_run mid ?g1" using g2 g0 by (simp add: net_run_def)
  have inv: "coordinated g2" using g2 by (simp only: coordinated_reachable)
  have rl: "r < length (requests ?g1)" using rq r by simp
  have hd: "handler (requests ?g1 ! r) = MoveHandler nm" using rq r by simp
  from net_run_requests[OF rl, of mid] hd
  have r2: "r < length (requests g2)"
    and hd2: "handler (requests g2 ! r) = MoveHandler nm"
    unfolding g2' by simp_all
  have key: "request_key (requests g2 ! r) = nm"
    using hd2 by (simp add: request_key_def)
  have second: "getMove u' nm g2 = (Waiting r, g2)"
    by (rule pending_getMove[OF inv r2 pend hd2])
  have once: "filter (\<lambda>q. request_key q = nm) (drop r (requests g2)) = [requests g2 ! r]"
    using pending_is_latest[OF inv r2 pend] key by (intro filter_drop_single[OF r2]) simp_all
  have "distinct (map fst (activeRequests g2))" using inv by (simp add: coordinated_def)
  moreover have "fst (getMove u nm g0) = Waiting r" using first by (metis fst_conv)
  moreover have "fst (getMove u' nm g2) = Waiting r" using second by (metis fst_conv)
  ultimately show ?thesis
    using rq second once unfolding call_getMove_def g0 g2 by simp
qed


text \<open>
  C1, as the code has it. Let a call of \<open>getPokemon\<close> for an id (or of \<open>getMove\<close> for a
  name) arrive after any history of calls and settlements, when the key is neither cached
  nor registered. Then this call starts the producer: it issues one HTTP request, \<open>r\<close>,
  for the key. Let any calls and settlements follow, and let request \<open>r\<close> still be
  pending when a second call for the key arrives. Then the second call changes nothing and
  issues no request; of all requests issued since the first call exactly one, \<open>r\<close>,
  carries the key, so the producer has been started exactly once; the registry holds at
  most one entry per key; and each caller holds a promise object of its own, both resolved
  with the one promise of request \<open>r\<close>, so that both observe its settlement.
\<close>

theorem in_flight_deduplication:
  assumes "g = net_run pre init_globals" and "r = length (requests g)"
  shows
   "(Cache_get (pokemonCache g) (toString pid) = None
       \<and> Map_get (activeRequests g) (toString pid) = None
       \<and> state (requests (net_run (pre @ GetPokemon pid # mid) init_globals) ! r) = Pending
     \<longrightarrow> requests (snd (getPokemon pid g))
           = requests g @ [\<lparr>url = ''https://pokeapi.co/api/v2/pokemon/'' @ toString pid,
                handler = PokemonHandler (toString pid), state = Pending\<rparr>]
       \<and> call_getPokemon pid pre = Promise (async_calls pre) (Waiting r)
       \<and> call_getPokemon pid (pre @ GetPokemon pid # mid)
           = Promise (async_calls (pre @ GetPokemon pid # mid)) (Waiting r)
       \<and> getPokemon pid (net_run (pre @ GetPokemon pid # mid) init_globals) = (Waiting r, net_run (pre @ GetPokemon pid # mid) init_globals)
       \<and> filter (\<lambda>q. request_key q = (toString pid)) (drop r (requests (net_run (pre @ GetPokemon pid # mid) init_globals)))
           = [requests (net_run (pre @ GetPokemon pid # mid) init_globals) ! r]
       \<and> distinct (map fst (activeRequests (net_run (pre @ GetPokemon pid # mid) init_globals))))
  \<and> (Cache_get (moveCache g) nm = None
       \<and> Map_get (activeRequests g) nm = None
       \<and> state (requests (net_run (pre @ GetMove u nm # mid) init_globals) ! r) = Pending
     \<longrightarrow> requests (snd (getMove u nm g))
           = requests g @ [\<lparr>url = u,
                handler = MoveHandler nm, state = Pending\<rparr>]
       \<and> call_getMove u nm pre = Promise (async_calls pre) (Waiting r)
       \<and> call_getMove u' nm (pre @ GetMove u nm # mid)
           = Promise (async_calls (pre @ GetMove u nm # mid)) (Waiting r)
       \<and> getMove u' nm (net_run (pre @ GetMove u nm # mid) init_globals) = (Waiting r, net_run (pre @ GetMove u nm # mid) init_globals)
       \<and> filter (\<lambda>q. request_key q = nm) (drop r (requests (net_run (pre @ GetMove u nm # mid) init_globals)))
           = [requests (net_run (pre @ GetMove u nm # mid) init_globals) ! r]
       \<and> distinct (map fst (activeRequests (net_run (pre @ GetMove u nm # mid) init_globals))))"
  using once_pokemon[OF assms refl, of pid mid] once_move[OF assms refl, of nm u mid u']
  by blast

text \<open>Concrete runs are evaluated with the definitions of the calls.\<close>

lemmas run_defs = net_run_def getPokemon_def getMove_def settle_def init_globals_def
  Cache_new_def Cache_get_def Cache_set_def Map_first_key_def Map_delete_def Map_get_def
  toString.simps Let_def request_key_def

lemma toString_25: "toString 25 = ''25''"
  by code_simp

text \<open>
  Two callers of \<open>getPokemon(25)\<close>, a call for pokemon 4 in between; and two callers of
  \<open>getMove\<close> for the move thunder.
\<close>

lemma dedup_run_pokemon:
  "0 = length (requests (net_run [] init_globals))
   \<and> Cache_get (pokemonCache (net_run [] init_globals)) (toString 25) = None
   \<and> Map_get (activeRequests (net_run [] init_globals)) (toString 25) = None
   \<and> state (requests (net_run ([] @ GetPokemon 25 # [GetPokemon 4]) init_globals) ! 0) = Pending"
  by code_simp

lemma dedup_run_move:
  "Cache_get (moveCache (net_run [] init_globals)) ''thunder'' = None
   \<and> Map_get (activeRequests (net_run [] init_globals)) ''thunder'' = None
   \<and> state (requests (net_run ([] @ GetMove ''u'' ''thunder'' # [GetPokemon 4]) init_globals) ! 0) = Pending"
  by code_simp

lemma dedup_run_calls:
  "async_calls [] = 0 \<and> async_calls ([] @ GetPokemon 25 # [GetPokemon 4]) = 2
   \<and> async_calls ([] @ GetMove ''u'' ''thunder'' # [GetPokemon 4]) = 2"
  by code_simp

theorem in_flight_deduplication_witness:
  "call_getPokemon 25 [] = Promise 0 (Waiting 0)
   \<and> call_getPokemon 25 ([] @ GetPokemon 25 # [GetPokemon 4]) = Promise 2 (Waiting 0)
   \<and> getPokemon 25 (net_run ([] @ GetPokemon 25 # [GetPokemon 4]) init_globals) = (Waiting 0, net_run ([] @ GetPokemon 25 # [GetPokemon 4]) init_globals)
   \<and> filter (\<lambda>q. request_key q = toString 25) (drop 0 (requests (net_run ([] @ GetPokemon 25 # [GetPokemon 4]) init_globals)))
       = [requests (net_run ([] @ GetPokemon 25 # [GetPokemon 4]) init_globals) ! 0]
   \<and> call_getMove ''u'' ''thunder'' [] = Promise 0 (Waiting 0)
   \<and> call_getMove ''v'' ''thunder'' ([] @ GetMove ''u'' ''thunder'' # [GetPokemon 4])
       = Promise 2 (Waiting 0)
   \<and> getMove ''v'' ''thunder'' (net_run ([] @ GetMove ''u'' ''thunder'' # [GetPokemon 4]) init_globals) = (Waiting 0, net_run ([] @ GetMove ''u'' ''thunder'' # [GetPokemon 4]) init_globals)"
proof -
  have len: "0 = length (requests (net_run [] init_globals))"
    using dedup_run_pokemon by blast
  note T = in_flight_deduplication[OF refl len, where pid = 25 and mid = "[GetPokemon 4]"
      and u = "''u''" and nm = "''thunder''" and u' = "''v''"]
  have a: "call_getPokemon 25 [] = Promise (async_calls []) (Waiting 0)
     \<and> call_getPokemon 25 ([] @ GetPokemon 25 # [GetPokemon 4])
         = Promise (async_calls ([] @ GetPokemon 25 # [GetPokemon 4])) (Waiting 0)
     \<and> getPokemon 25 (net_run ([] @ GetPokemon 25 # [GetPokemon 4]) init_globals) = (Waiting 0, net_run ([] @ GetPokemon 25 # [GetPokemon 4]) init_globals)
     \<and> filter (\<lambda>q. request_key q = toString 25) (drop 0 (requests (net_run ([] @ GetPokemon 25 # [GetPokemon 4]) init_globals)))
         = [requests (net_run ([] @ GetPokemon 25 # [GetPokemon 4]) init_globals) ! 0]"
    using T dedup_run_pokemon by blast
  have b: "call_getMove ''u'' ''thunder'' [] = Promise (async_calls []) (Waiting 0)
     \<and> call_getMove ''v'' ''thunder'' ([] @ GetMove ''u'' ''thunder'' # [GetPokemon 4])
         = Promise (async_calls ([] @ GetMove ''u'' ''thunder'' # [GetPokemon 4])) (Waiting 0)
     \<and> getMove ''v'' ''thunder'' (net_run ([] @ GetMove ''u'' ''thunder'' # [GetPokemon 4]) init_globals) = (Waiting 0, net_run ([] @ GetMove ''u'' ''thunder'' # [GetPokemon 4]) init_globals)"
    using T dedup_run_move by blast
  have n: "async_calls [] = 0" "async_calls ([] @ GetPokemon 25 # [GetPokemon 4]) = 2"
    "async_calls ([] @ GetMove ''u'' ''thunder'' # [GetPokemon 4]) = 2"
    using dedup_run_calls by blast+
  show ?thesis using a[unfolded n] b[unfolded n] by blast
qed

text \<open>
  C1 as stated fails in that the callers do not receive the same handle: an \<open>async\<close>
  function returns a new promise object at every call. The first \<open>getPokemon(25)\<close> starts
  request 0; the second arrives while it is pending, and its promise is another object
  than the first caller's.
\<close>

theorem same_promise_object_counterexample:
  "length (requests (net_run [] init_globals)) = 0
   \<and> length (requests (net_run [GetPokemon 25] init_globals)) = 1
   \<and> state (requests (net_run [GetPokemon 25] init_globals) ! 0) = Pending
   \<and> call_getPokemon 25 [] \<noteq> call_getPokemon 25 [GetPokemon 25]"
  by code_simp

text \<open>
  After pokemon 25 and the move thunder have been fetched, both are served from the cache.
\<close>

theorem cache_hit_no_request_witness:
  "getPokemon 25
     (net_run [GetPokemon 25, Settle 0 (Ok (PokemonJson pikachu)),
               GetMove ''u'' ''thunder'', Settle 1 (Ok (MoveJson (Some 110)))] init_globals)
   = (Ready (PokemonData pikachu),
      net_run [GetPokemon 25, Settle 0 (Ok (PokemonJson pikachu)),
               GetMove ''u'' ''thunder'', Settle 1 (Ok (MoveJson (Some 110)))] init_globals)
   \<and> getMove ''v'' ''thunder''
     (net_run [GetPokemon 25, Settle 0 (Ok (PokemonJson pikachu)),
               GetMove ''u'' ''thunder'', Settle 1 (Ok (MoveJson (Some 110)))] init_globals)
   = (Ready (MoveData \<lparr>Move.name = ''thunder'', power = Some 110\<rparr>),
      net_run [GetPokemon 25, Settle 0 (Ok (PokemonJson pikachu)),
               GetMove ''u'' ''thunder'', Settle 1 (Ok (MoveJson (Some 110)))] init_globals)"
  using cache_hit_no_request[where pid = 25 and p = pikachu and nm = "''thunder''"
      and m = "\<lparr>Move.name = ''thunder'', power = Some 110\<rparr>" and u = "''v''"
      and g = "net_run [GetPokemon 25, Settle 0 (Ok (PokemonJson pikachu)),
               GetMove ''u'' ''thunder'', Settle 1 (Ok (MoveJson (Some 110)))] init_globals"]
  by (simp add: run_defs)

lemma settle_Failed:
  assumes "r < length (requests g)" "state (requests g ! r) = Pending"
  shows "settle r (Failed e) g =
     g\<lparr>activeRequests := Map_delete (request_key (requests g ! r)) (activeRequests g),
       requests := (requests g)[r := (requests g ! r)\<lparr>state := Rejected e\<rparr>],
       settled := settled g @ [r]\<rparr>"
  using assms by (cases "handler (requests g ! r)") (simp_all add: settle_def request_key_def)

lemma failure_pokemon:
  assumes inv: "coordinated g" and r: "r < length (requests g)"
    and p: "state (requests g ! r) = Pending"
    and h: "handler (requests g ! r) = PokemonHandler (toString pid)"
  shows "handle_state (settle r (Failed e) g) (Waiting r) = Rejected e
       \<and> Map_get (activeRequests (settle r (Failed e) g)) (toString pid) = None
       \<and> pokemonCache (settle r (Failed e) g) = pokemonCache g
       \<and> moveCache (settle r (Failed e) g) = moveCache g
       \<and> Cache_get (pokemonCache (settle r (Failed e) g)) (toString pid) = None
       \<and> fst (getPokemon pid (settle r (Failed e) g)) = Waiting (length (requests g))
       \<and> length (requests (snd (getPokemon pid (settle r (Failed e) g))))
           = Suc (length (requests g))"
proof -
  have "pending_uncached g" using inv by (simp add: coordinated_def)
  from pending_uncachedD[OF this r p] h
  have miss: "Cache_get (pokemonCache g) (toString pid) = None" by simp
  have key: "request_key (requests g ! r) = toString pid" using h by (simp add: request_key_def)
  show ?thesis
    using miss r by (simp add: settle_Failed[OF r p] key getPokemon_cases issue_def)
qed

lemma failure_move:
  assumes inv: "coordinated g" and r: "r < length (requests g)"
    and p: "state (requests g ! r) = Pending"
    and h: "handler (requests g ! r) = MoveHandler nm"
  shows "handle_state (settle r (Failed e) g) (Waiting r) = Rejected e
       \<and> Map_get (activeRequests (settle r (Failed e) g)) nm = None
       \<and> pokemonCache (settle r (Failed e) g) = pokemonCache g
       \<and> moveCache (settle r (Failed e) g) = moveCache g
       \<and> Cache_get (moveCache (settle r (Failed e) g)) nm = None
       \<and> fst (getMove u nm (settle r (Failed e) g)) = Waiting (length (requests g))
       \<and> length (requests (snd (getMove u nm (settle r (Failed e) g))))
           = Suc (length (requests g))"
proof -
  have "pending_uncached g" using inv by (simp add: coordinated_def)
  from pending_uncachedD[OF this r p] h
  have miss: "Cache_get (moveCache g) nm = None" by simp
  have key: "request_key (requests g ! r) = nm" using h by (simp add: request_key_def)
  show ?thesis
    using miss r by (simp add: settle_Failed[OF r p] key getMove_cases issue_def)
qed

text \<open>
  C5. If the HTTP request started by \<open>getPokemon\<close> or \<open>getMove\<close> for a key fails while
  it is pending, after any history of calls and settlements: its promise is rejected with
  that error, which is what every waiter holding the promise observes; the registry entry
  of the key is removed; both caches are left as they were, with no entry for the key; and
  the next call for the key issues a new request.
\<close>

theorem failure_not_cached:
  assumes "g = net_run pre init_globals"
    and "r < length (requests g)" and "state (requests g ! r) = Pending"
  shows
   "(handler (requests g ! r) = PokemonHandler (toString pid) \<longrightarrow>
       handle_state (settle r (Failed e) g) (Waiting r) = Rejected e
       \<and> Map_get (activeRequests (settle r (Failed e) g)) (toString pid) = None
       \<and> pokemonCache (settle r (Failed e) g) = pokemonCache g
       \<and> moveCache (settle r (Failed e) g) = moveCache g
       \<and> Cache_get (pokemonCache (settle r (Failed e) g)) (toString pid) = None
       \<and> fst (getPokemon pid (settle r (Failed e) g)) = Waiting (length (requests g))
       \<and> length (requests (snd (getPokemon pid (settle r (Failed e) g))))
           = Suc (length (requests g)))
  \<and> (handler (requests g ! r) = MoveHandler nm \<longrightarrow>
       handle_state (settle r (Failed e) g) (Waiting r) = Rejected e
       \<and> Map_get (activeRequests (settle r (Failed e) g)) nm = None
       \<and> pokemonCache (settle r (Failed e) g) = pokemonCache g
       \<and> moveCache (settle r (Failed e) g) = moveCache g
       \<and> Cache_get (moveCache (settle r (Failed e) g)) nm = None
       \<and> fst (getMove u nm (settle r (Failed e) g)) = Waiting (length (requests g))
       \<and> length (requests (snd (getMove u nm (settle r (Failed e) g))))
           = Suc (length (requests g)))"
proof -
  have inv: "coordinated g" using assms(1) by (simp add: coordinated_reachable)
  show ?thesis
    using failure_pokemon[OF inv assms(2,3), of pid e] failure_move[OF inv assms(2,3), of nm e u]
    by blast
qed

text \<open>
  A timeout of the request for pokemon 25, and one of the request for the move thunder:
  the promise is rejected and the next call issues request 1.
\<close>

theorem failure_not_cached_witness:
  "handle_state (settle 0 (Failed (Error ''timeout of 10000ms exceeded''))
       (net_run [GetPokemon 25] init_globals)) (Waiting 0)
     = Rejected (Error ''timeout of 10000ms exceeded'')
   \<and> fst (getPokemon 25 (settle 0 (Failed (Error ''timeout of 10000ms exceeded''))
       (net_run [GetPokemon 25] init_globals))) = Waiting 1
   \<and> handle_state (settle 0 (Failed (Error ''timeout of 10000ms exceeded''))
       (net_run [GetMove ''u'' ''thunder''] init_globals)) (Waiting 0)
     = Rejected (Error ''timeout of 10000ms exceeded'')
   \<and> fst (getMove ''u'' ''thunder'' (settle 0 (Failed (Error ''timeout of 10000ms exceeded''))
       (net_run [GetMove ''u'' ''thunder''] init_globals))) = Waiting 1"
  using failure_not_cached[where g = "net_run [GetPokemon 25] init_globals"
      and pre = "[GetPokemon 25]" and r = 0 and pid = 25
      and e = "Error ''timeout of 10000ms exceeded''"]
    failure_not_cached[where g = "net_run [GetMove ''u'' ''thunder''] init_globals"
      and pre = "[GetMove ''u'' ''thunder'']" and r = 0 and nm = "''thunder''" and u = "''u''"
      and e = "Error ''timeout of 10000ms exceeded''"]
  by (simp add: run_defs)

lemma settle_Ok_state:
  assumes "r < length (requests g)" "state (requests g ! r) = Pending"
  shows "(handler (requests g ! r) = PokemonHandler k \<longrightarrow>
            handle_state (settle r (Ok (PokemonJson d)) g) (Waiting r) = Fulfilled (PokemonData d))
       \<and> (handler (requests g ! r) = MoveHandler k \<longrightarrow>
            handle_state (settle r (Ok (MoveJson pw)) g) (Waiting r)
              = Fulfilled (MoveData \<lparr>Move.name = k, power = pw\<rparr>))"
  using assms by (simp add: settle_def Let_def)

text \<open>
  C9, as the code has it. \<open>getPokemon\<close> and \<open>getMove\<close> share the one registry keyed by
  string. While a \<open>getPokemon(id)\<close> request is pending and the move cache has no entry
  under the decimal string of the id, a \<open>getMove\<close> call with that string as name returns
  the pokemon's pending promise and issues no request, and the promise is fulfilled with
  a pokemon. Likewise, while a \<open>getMove\<close> request named by the decimal string of an id is
  pending and the pokemon cache has no entry for it, \<open>getPokemon(id)\<close> returns the move's
  pending promise, which is fulfilled with a move.
\<close>

theorem shared_registry_collision:
  assumes "g = net_run pre init_globals"
    and "r < length (requests g)" and "state (requests g ! r) = Pending"
  shows
   "(handler (requests g ! r) = PokemonHandler (toString pid)
       \<and> Cache_get (moveCache g) (toString pid) = None \<longrightarrow>
       getMove u (toString pid) g = (Waiting r, g)
       \<and> handle_state (settle r (Ok (PokemonJson d)) g) (Waiting r) = Fulfilled (PokemonData d))
  \<and> (handler (requests g ! r) = MoveHandler (toString pid)
       \<and> Cache_get (pokemonCache g) (toString pid) = None \<longrightarrow>
       getPokemon pid g = (Waiting r, g)
       \<and> handle_state (settle r (Ok (MoveJson pw)) g) (Waiting r)
           = Fulfilled (MoveData \<lparr>Move.name = toString pid, power = pw\<rparr>))"
proof -
  have inv: "coordinated g" using assms(1) by (simp add: coordinated_reachable)
  then have "pending_registered g" by (simp add: coordinated_def)
  from pending_registeredD[OF this assms(2,3)]
  have reg: "Map_get (activeRequests g) (request_key (requests g ! r)) = Some r" .
  show ?thesis
    using reg settle_Ok_state[OF assms(2,3), of "toString pid" d pw]
    by (auto simp: request_key_def getMove_cases getPokemon_cases)
qed

text \<open>
  \<open>getMove\<close> for a move named 25 while pokemon 25 is being fetched, and the other way
  round.
\<close>

theorem shared_registry_collision_witness:
  "getMove ''u'' ''25'' (net_run [GetPokemon 25] init_globals)
     = (Waiting 0, net_run [GetPokemon 25] init_globals)
   \<and> handle_state (settle 0 (Ok (PokemonJson pikachu)) (net_run [GetPokemon 25] init_globals))
       (Waiting 0) = Fulfilled (PokemonData pikachu)
   \<and> getPokemon 25 (net_run [GetMove ''u'' ''25''] init_globals)
     = (Waiting 0, net_run [GetMove ''u'' ''25''] init_globals)
   \<and> handle_state (settle 0 (Ok (MoveJson (Some 40))) (net_run [GetMove ''u'' ''25''] init_globals))
       (Waiting 0) = Fulfilled (MoveData \<lparr>Move.name = ''25'', power = Some 40\<rparr>)"
  using shared_registry_collision[where g = "net_run [GetPokemon 25] init_globals"
      and pre = "[GetPokemon 25]" and r = 0 and pid = 25 and u = "''u''" and d = pikachu]
    shared_registry_collision[where g = "net_run [GetMove ''u'' ''25''] init_globals"
      and pre = "[GetMove ''u'' ''25'']" and r = 0 and pid = 25 and pw = "Some 40"]
  by (simp add: toString_25 net_run_def getPokemon_def getMove_def settle_def init_globals_def
      Cache_new_def Cache_get_def Cache_set_def Map_first_key_def Map_delete_def Map_get_def
      Let_def request_key_def)

text \<open>
  C9 as stated fails when the cache of the second function has the key: the lookup in
  the cache comes before the registry. After the move named 25 has been fetched and
  cached, request 1 of \<open>getPokemon(25)\<close> is pending, and \<open>getMove\<close> for the name 25
  returns the cached move, not the promise of request 1.
\<close>

theorem shared_registry_cached_counterexample:
  "state (requests (net_run [GetMove ''u'' ''25'', Settle 0 (Ok (MoveJson (Some 40))),
                             GetPokemon 25] init_globals) ! 1) = Pending
   \<and> handler (requests (net_run [GetMove ''u'' ''25'', Settle 0 (Ok (MoveJson (Some 40))),
                             GetPokemon 25] init_globals) ! 1) = PokemonHandler (toString 25)
   \<and> toString 25 = ''25''
   \<and> fst (getMove ''u'' ''25'' (net_run [GetMove ''u'' ''25'', Settle 0 (Ok (MoveJson (Some 40))),
                             GetPokemon 25] init_globals))
       = Ready (MoveData \<lparr>Move.name = ''25'', power = Some 40\<rparr>)
   \<and> Ready (MoveData \<lparr>Move.name = ''25'', power = Some 40\<rparr>) \<noteq> Waiting 1"
  by (simp add: toString_25 net_run_def getPokemon_def getMove_def settle_def init_globals_def
      Cache_new_def Cache_get_def Cache_set_def Map_first_key_def Map_delete_def Map_get_def
      Let_def request_key_def)

section \<open>Properties of the component\<close>

lemma random_ids_loop_length:
  "random_ids_loop count maxId ids rs = Some out \<Longrightarrow> length ids \<le> count \<Longrightarrow>
   length out = count"
proof (induction rs arbitrary: ids)
  case Nil
  then show ?case by (auto split: if_splits)
next
  case (Cons r rs)
  show ?case
  proof (cases "length ids < count")
    case False
    then show ?thesis using Cons.prems by auto
  next
    case True
    have "length (Set_add (random_index r 151 + 1) ids) \<le> count"
      using True by (simp add: Set_add_def)
    then show ?thesis using Cons True by (simp add: Set_add_def split: if_splits)
  qed
qed

lemma two_ids:
  assumes "getRandomPokemonIds 2 maxId rs = Some ids"
  obtains id1 id2 where "ids = [id1, id2]"
proof -
  have "length ids = 2"
    using random_ids_loop_length[of 2 maxId "[]" rs ids] assms
    by (simp add: getRandomPokemonIds_def)
  then show ?thesis using that
    by (cases ids; cases "tl ids") auto
qed

lemma length_abort [simp]: "length (abort n rs) = length rs"
  by (simp add: abort_def)

lemma aborted_abort:
  "m < length rs \<Longrightarrow> aborted (abort n rs ! m) = (aborted (rs ! m) \<or> m = n)"
  by (auto simp: abort_def nth_list_update)

lemma aborted_update_phase [simp]:
  "aborted (rs[n := (rs ! n)\<lparr>phase := ph\<rparr>] ! m) = aborted (rs ! m)"
  by (cases "n < length rs"; cases "m = n") (simp_all add: list_update_beyond)

lemma rounds_set_phase:
  "length (rounds (set_phase n ph c)) = length (rounds c)
   \<and> (m < length (rounds c) \<longrightarrow> aborted (rounds (set_phase n ph c) ! m) = aborted (rounds c ! m))"
  by (simp add: set_phase_def)

lemma other_set_phase [simp]:
  "net (set_phase n ph c) = net c" "visible (set_phase n ph c) = visible c"
  "abortControllerRef (set_phase n ph c) = abortControllerRef c"
  by (simp_all add: set_phase_def visible_def)

lemma catch_block_rounds:
  "length (rounds (catch_block n err c)) = length (rounds c)
   \<and> (m < length (rounds c) \<longrightarrow> aborted (rounds (catch_block n err c) ! m) = aborted (rounds c ! m))
   \<and> abortControllerRef (catch_block n err c) = abortControllerRef c
   \<and> net (catch_block n err c) = net c"
  by (simp add: catch_block_def set_phase_def)

lemma resume_rounds:
  "length (rounds (resume n r1 r2 c)) = length (rounds c)
   \<and> (m < length (rounds c) \<longrightarrow> aborted (rounds (resume n r1 r2 c) ! m) = aborted (rounds c ! m))
   \<and> abortControllerRef (resume n r1 r2 c) = abortControllerRef c"
  by (auto simp: resume_def catch_block_rounds rounds_set_phase Let_def
      split: phase.splits awaited.splits list.splits prod.splits)

lemma start_rounds:
  assumes "getRandomPokemonIds 2 151 rs = Some ids"
  shows "length (rounds (getTwoRandomPokemons rs c)) = Suc (length (rounds c))
   \<and> abortControllerRef (getTwoRandomPokemons rs c) = Some (length (rounds c))
   \<and> (m < length (rounds c) \<longrightarrow>
        aborted (rounds (getTwoRandomPokemons rs c) ! m)
          = (aborted (rounds c ! m) \<or> abortControllerRef c = Some m))"
proof -
  from two_ids[OF assms] obtain id1 id2 where ids: "ids = [id1, id2]" .
  show ?thesis
    using assms ids
    by (auto simp: getTwoRandomPokemons_def Let_def nth_append aborted_abort
        split: option.splits prod.splits)
qed

lemma start_rounds_None:
  "getRandomPokemonIds 2 151 rs = None \<Longrightarrow> getTwoRandomPokemons rs c = c"
  by (simp add: getTwoRandomPokemons_def)

lemma step_aborted:
  assumes "m < length (rounds c)" "aborted (rounds c ! m)"
  shows "m < length (rounds (step e c)) \<and> aborted (rounds (step e c) ! m)"
proof (cases e)
  case (StartBattle rs)
  show ?thesis
  proof (cases "getRandomPokemonIds 2 151 rs")
    case None
    then show ?thesis using assms StartBattle by (simp add: start_rounds_None)
  next
    case (Some ids)
    from start_rounds[OF Some, of c m] assms StartBattle show ?thesis by simp
  qed
next
  case (Resume n r1 r2)
  then show ?thesis using assms resume_rounds[of n r1 r2 c m] by simp
next
  case (Response r out)
  then show ?thesis using assms by simp
next
  case Unmount
  then show ?thesis using assms by (auto simp: aborted_abort split: option.splits)
qed

lemma run_aborted:
  "m < length (rounds c) \<Longrightarrow> aborted (rounds c ! m) \<Longrightarrow>
   m < length (rounds (run es c)) \<and> aborted (rounds (run es c) ! m)"
proof (induction es arbitrary: c)
  case Nil
  then show ?case by (simp add: run_def)
next
  case (Cons e es)
  have eq: "run (e # es) c = run es (step e c)" by (simp add: run_def)
  from step_aborted[OF Cons.prems, of e] Cons.IH[of "step e c"]
  show ?case unfolding eq by simp
qed

lemma step_ref_in_rounds: "ref_in_rounds c \<Longrightarrow> ref_in_rounds (step e c)"
proof (cases e)
  case (StartBattle rs)
  assume inv: "ref_in_rounds c"
  show ?thesis
  proof (cases "getRandomPokemonIds 2 151 rs")
    case None
    then show ?thesis using inv StartBattle by (simp add: start_rounds_None)
  next
    case (Some ids)
    from start_rounds[OF Some, of c] StartBattle show ?thesis
      by (simp add: ref_in_rounds_def)
  qed
next
  case (Resume n r1 r2)
  assume "ref_in_rounds c"
  then show ?thesis using Resume resume_rounds[of n r1 r2 c] by (simp add: ref_in_rounds_def)
next
  case (Response r out)
  assume "ref_in_rounds c"
  then show ?thesis using Response by (simp add: ref_in_rounds_def)
next
  case Unmount
  assume "ref_in_rounds c"
  then show ?thesis using Unmount by (auto simp: ref_in_rounds_def split: option.splits)
qed

lemma run_ref_in_rounds: "ref_in_rounds c \<Longrightarrow> ref_in_rounds (run es c)"
  by (induction es arbitrary: c) (simp_all add: run_def step_ref_in_rounds)

lemma init_ref_in_rounds: "ref_in_rounds init"
  by (simp add: ref_in_rounds_def init_def)

lemma resume_aborted:
  assumes "n < length (rounds c)" "aborted (rounds c ! n)"
  shows "visible (resume n r1 r2 c) = visible c \<and> net (resume n r1 r2 c) = net c"
  using assms
  by (auto simp: resume_def catch_block_def split: phase.splits awaited.splits)

lemma settle_Ok_pokemon:
  assumes "r < length (requests g)" "state (requests g ! r) = Pending"
    and "handler (requests g ! r) = PokemonHandler k"
  shows "Cache_get (pokemonCache (settle r (Ok (PokemonJson d)) g)) k = Some d
       \<and> handle_state (settle r (Ok (PokemonJson d)) g) (Waiting r) = Fulfilled (PokemonData d)"
  using assms by (simp add: settle_def Cache_get_Cache_set_same)

lemma settle_Ok_move:
  assumes "r < length (requests g)" "state (requests g ! r) = Pending"
    and "handler (requests g ! r) = MoveHandler k"
  shows "Cache_get (moveCache (settle r (Ok (MoveJson pw)) g)) k
           = Some \<lparr>Move.name = k, power = pw\<rparr>
       \<and> handle_state (settle r (Ok (MoveJson pw)) g) (Waiting r)
           = Fulfilled (MoveData \<lparr>Move.name = k, power = pw\<rparr>)"
  using assms by (simp add: settle_def Let_def Cache_get_Cache_set_same)

lemma getPokemon_kept:
  "r < length (requests g) \<Longrightarrow>
   r < length (requests (snd (getPokemon pid g)))
   \<and> requests (snd (getPokemon pid g)) ! r = requests g ! r"
  by (simp add: getPokemon_cases issue_def nth_append split: option.splits)

lemma getMove_kept:
  "r < length (requests g) \<Longrightarrow>
   r < length (requests (snd (getMove u nm g)))
   \<and> requests (snd (getMove u nm g)) ! r = requests g ! r"
  by (simp add: getMove_cases issue_def nth_append split: option.splits)

lemma settle_kept:
  "r < length (requests g) \<Longrightarrow> r' \<noteq> r \<Longrightarrow>
   r < length (requests (settle r' out g))
   \<and> requests (settle r' out g) ! r = requests g ! r"
  by (auto simp: settle_def dest!: run_handler_shape split: option.splits)

lemma with_move_kept:
  assumes r: "r < length (requests g)"
  shows "r < length (requests (snd (with_move p x g)))
   \<and> requests (snd (with_move p x g)) ! r = requests g ! r"
proof (cases p)
  case (MoveData m)
  then show ?thesis using r by simp
next
  case (PokemonData pk)
  show ?thesis
    using PokemonData getMove_kept[OF r] r
    by (simp add: Let_def case_prod_beta)
qed

lemma start_kept:
  assumes "r < length (requests (net c))"
  shows "r < length (requests (net (getTwoRandomPokemons rs c)))
       \<and> requests (net (getTwoRandomPokemons rs c)) ! r = requests (net c) ! r"
proof (cases "getRandomPokemonIds 2 151 rs")
  case None
  then show ?thesis using assms by (simp add: start_rounds_None)
next
  case (Some ids)
  from two_ids[OF Some] obtain id1 id2 where ids: "ids = [id1, id2]" .
  have n: "net (getTwoRandomPokemons rs c) = snd (getPokemon id2 (snd (getPokemon id1 (net c))))"
    using Some ids by (simp add: getTwoRandomPokemons_def Let_def split: prod.splits)
  from getPokemon_kept[OF assms, of id1]
  have a: "r < length (requests (snd (getPokemon id1 (net c))))"
    and b: "requests (snd (getPokemon id1 (net c))) ! r = requests (net c) ! r" by simp_all
  from getPokemon_kept[OF a, of id2] b show ?thesis unfolding n by simp
qed

lemma resume_kept:
  assumes "r < length (requests (net c))"
  shows "r < length (requests (net (resume n r1 r2 c)))
       \<and> requests (net (resume n r1 r2 c)) ! r = requests (net c) ! r"
proof -
  have two: "\<And>p1 p2. r < length (requests (snd (with_move p2 r2 (snd (with_move p1 r1 (net c))))))
      \<and> requests (snd (with_move p2 r2 (snd (with_move p1 r1 (net c))))) ! r = requests (net c) ! r"
  proof -
    fix p1 p2
    from with_move_kept[OF assms, of p1 r1]
    have a: "r < length (requests (snd (with_move p1 r1 (net c))))"
      and b: "requests (snd (with_move p1 r1 (net c))) ! r = requests (net c) ! r" by simp_all
    from with_move_kept[OF a, of p2 r2] b
    show "r < length (requests (snd (with_move p2 r2 (snd (with_move p1 r1 (net c))))))
      \<and> requests (snd (with_move p2 r2 (snd (with_move p1 r1 (net c))))) ! r = requests (net c) ! r"
      by simp
  qed
  show ?thesis
    using assms two
    by (simp add: resume_def catch_block_def Let_def case_prod_beta
        split: phase.splits awaited.splits list.splits)
qed

lemma step_kept:
  assumes "r < length (requests (net c))" "\<not> settles r e"
  shows "r < length (requests (net (step e c)))
       \<and> requests (net (step e c)) ! r = requests (net c) ! r"
proof (cases e)
  case (StartBattle rs)
  then show ?thesis using start_kept[OF assms(1)] by simp
next
  case (Resume n r1 r2)
  then show ?thesis using resume_kept[OF assms(1)] by simp
next
  case (Response r' out)
  then show ?thesis using settle_kept[OF assms(1), of r' out] assms(2) by simp
next
  case Unmount
  then show ?thesis using assms(1) by (simp split: option.splits)
qed

lemma run_kept:
  "r < length (requests (net c)) \<Longrightarrow> \<not> list_ex (settles r) es \<Longrightarrow>
   r < length (requests (net (run es c)))
   \<and> requests (net (run es c)) ! r = requests (net c) ! r"
proof (induction es arbitrary: c)
  case Nil
  then show ?case by (simp add: run_def)
next
  case (Cons e es)
  have eq: "run (e # es) c = run es (step e c)" by (simp add: run_def)
  have ne: "\<not> settles r e" "\<not> list_ex (settles r) es" using Cons.prems(2) by simp_all
  from step_kept[OF Cons.prems(1) ne(1)]
  have a: "r < length (requests (net (step e c)))"
    and b: "requests (net (step e c)) ! r = requests (net c) ! r" by simp_all
  from Cons.IH[OF a ne(2)] b show ?case unfolding eq by simp
qed


text \<open>
  C7. Let round \<open>n\<close> be the round of the ref after any history of the component, and let
  a new round start, whatever happens afterwards (settlements of the requests of round
  \<open>n\<close> included). Then the controller of round \<open>n\<close> is aborted, and a continuation of
  round \<open>n\<close> changes neither \<open>pokemons\<close>, \<open>error\<close>, \<open>loading\<close> nor the module's
  state. The requests are not aborted: a request that was pending when the new round
  started is the same pending request afterwards, until its own response arrives; then
  it settles as ever, and on success its value is written to the cache and fulfils its
  promise.
\<close>

theorem superseded_round_invisible:
  assumes "c1 = run pre init"
    and "abortControllerRef c1 = Some n"
    and "getRandomPokemonIds 2 151 rs \<noteq> None"
    and "c2 = run mid (step (StartBattle rs) c1)"
  shows "aborted (rounds c2 ! n)
       \<and> visible (step (Resume n r1 r2) c2) = visible c2
       \<and> net (step (Resume n r1 r2) c2) = net c2
       \<and> (r < length (requests (net c1)) \<and> state (requests (net c1) ! r) = Pending
            \<and> \<not> list_ex (settles r) mid \<longrightarrow>
          r < length (requests (net c2))
          \<and> requests (net c2) ! r = requests (net c1) ! r
          \<and> (handler (requests (net c1) ! r) = PokemonHandler k \<longrightarrow>
               Cache_get (pokemonCache (net (step (Response r (Ok (PokemonJson d))) c2))) k
                 = Some d
               \<and> handle_state (net (step (Response r (Ok (PokemonJson d))) c2)) (Waiting r)
                   = Fulfilled (PokemonData d))
          \<and> (handler (requests (net c1) ! r) = MoveHandler k \<longrightarrow>
               Cache_get (moveCache (net (step (Response r (Ok (MoveJson pw))) c2))) k
                 = Some \<lparr>Move.name = k, power = pw\<rparr>
               \<and> handle_state (net (step (Response r (Ok (MoveJson pw))) c2)) (Waiting r)
                   = Fulfilled (MoveData \<lparr>Move.name = k, power = pw\<rparr>)))"
proof -
  have "ref_in_rounds c1" using assms(1) by (simp add: run_ref_in_rounds init_ref_in_rounds)
  then have n: "n < length (rounds c1)" using assms(2) by (simp add: ref_in_rounds_def)
  obtain ids where ids: "getRandomPokemonIds 2 151 rs = Some ids" using assms(3) by auto
  from start_rounds[OF ids, of c1 n] n assms(2)
  have "n < length (rounds (step (StartBattle rs) c1))"
    and "aborted (rounds (step (StartBattle rs) c1) ! n)" by simp_all
  from run_aborted[OF this, of mid]
  have n2: "n < length (rounds c2)" and ab: "aborted (rounds c2 ! n)"
    using assms(4) by simp_all
  have kept: "r < length (requests (net c2)) \<and> requests (net c2) ! r = requests (net c1) ! r"
    if "r < length (requests (net c1))" "\<not> list_ex (settles r) mid"
  proof -
    from step_kept[OF that(1), of "StartBattle rs"]
    have a: "r < length (requests (net (step (StartBattle rs) c1)))"
      and b: "requests (net (step (StartBattle rs) c1)) ! r = requests (net c1) ! r"
      by simp_all
    from run_kept[OF a that(2)] b show ?thesis unfolding assms(4) by simp
  qed
  have fills: "(handler (requests (net c1) ! r) = PokemonHandler k \<longrightarrow>
               Cache_get (pokemonCache (net (step (Response r (Ok (PokemonJson d))) c2))) k
                 = Some d
               \<and> handle_state (net (step (Response r (Ok (PokemonJson d))) c2)) (Waiting r)
                   = Fulfilled (PokemonData d))
          \<and> (handler (requests (net c1) ! r) = MoveHandler k \<longrightarrow>
               Cache_get (moveCache (net (step (Response r (Ok (MoveJson pw))) c2))) k
                 = Some \<lparr>Move.name = k, power = pw\<rparr>
               \<and> handle_state (net (step (Response r (Ok (MoveJson pw))) c2)) (Waiting r)
                   = Fulfilled (MoveData \<lparr>Move.name = k, power = pw\<rparr>))"
    if "r < length (requests (net c1))" "state (requests (net c1) ! r) = Pending"
      "\<not> list_ex (settles r) mid"
  proof -
    from kept[OF that(1,3)] that(2)
    have a: "r < length (requests (net c2))" and b: "state (requests (net c2) ! r) = Pending"
      and c: "handler (requests (net c2) ! r) = handler (requests (net c1) ! r)" by simp_all
    show ?thesis
      using settle_Ok_pokemon[OF a b, of k d] settle_Ok_move[OF a b, of k pw] c by simp
  qed
  show ?thesis
    using ab resume_aborted[OF n2 ab, of r1 r2] kept fills by simp
qed

lemma superseded_after_failure:
  "abortControllerRef (run [StartBattle [3/10, 9/10]] init) = Some 0
   \<and> getRandomPokemonIds 2 151 [1/10, 1/2] \<noteq> None
   \<and> visible (run [Response 0 (Failed (Error ''Network Error''))]
        (step (StartBattle [1/10, 1/2]) (run [StartBattle [3/10, 9/10]] init))) = ([], None, True)
   \<and> visible (step (Resume 0 0 0) (run ([StartBattle [3/10, 9/10]] @ [Response 0 (Failed (Error ''Network Error''))]) init))
       = ([], Some ''Network Error'', False)"
  by code_simp

lemma superseded_after_move:
  "abortControllerRef (run [StartBattle [3/10, 9/10], Response 0 (Ok (PokemonJson ditto)),
        Response 1 (Ok (PokemonJson pikachu)), Resume 0 0 0] init) = Some 0
   \<and> getRandomPokemonIds 2 151 [1/10, 1/2] \<noteq> None
   \<and> visible (run [Response 2 (Ok (MoveJson (Some 110)))]
        (step (StartBattle [1/10, 1/2]) (run [StartBattle [3/10, 9/10], Response 0 (Ok (PokemonJson ditto)),
        Response 1 (Ok (PokemonJson pikachu)), Resume 0 0 0] init))) = ([], None, True)
   \<and> loading (step (Resume 0 0 0) (run ([StartBattle [3/10, 9/10], Response 0 (Ok (PokemonJson ditto)),
        Response 1 (Ok (PokemonJson pikachu)), Resume 0 0 0] @ [Response 2 (Ok (MoveJson (Some 110)))]) init)) = False"
  by code_simp

lemma superseded_pokemon_request:
  "abortControllerRef (run [StartBattle [3/10, 9/10]] init) = Some 0
   \<and> getRandomPokemonIds 2 151 [1/10, 1/2] \<noteq> None
   \<and> visible (run [Response 1 (Ok (PokemonJson ditto))]
        (step (StartBattle [1/10, 1/2]) (run [StartBattle [3/10, 9/10]] init))) = ([], None, True)
   \<and> 0 < length (requests (net (run [StartBattle [3/10, 9/10]] init)))
   \<and> state (requests (net (run [StartBattle [3/10, 9/10]] init)) ! 0) = Pending
   \<and> \<not> list_ex (settles 0) [Response 1 (Ok (PokemonJson ditto))]
   \<and> handler (requests (net (run [StartBattle [3/10, 9/10]] init)) ! 0) = PokemonHandler (toString 46)"
  by code_simp

lemma superseded_move_request:
  "abortControllerRef (run [StartBattle [3/10, 9/10], Response 0 (Ok (PokemonJson ditto)),
        Response 1 (Ok (PokemonJson pikachu)), Resume 0 0 0] init) = Some 0
   \<and> getRandomPokemonIds 2 151 [1/10, 1/2] \<noteq> None
   \<and> visible (run []
        (step (StartBattle [1/10, 1/2]) (run [StartBattle [3/10, 9/10], Response 0 (Ok (PokemonJson ditto)),
        Response 1 (Ok (PokemonJson pikachu)), Resume 0 0 0] init))) = ([], None, True)
   \<and> 2 < length (requests (net (run [StartBattle [3/10, 9/10], Response 0 (Ok (PokemonJson ditto)),
        Response 1 (Ok (PokemonJson pikachu)), Resume 0 0 0] init)))
   \<and> state (requests (net (run [StartBattle [3/10, 9/10], Response 0 (Ok (PokemonJson ditto)),
        Response 1 (Ok (PokemonJson pikachu)), Resume 0 0 0] init)) ! 2) = Pending
   \<and> \<not> list_ex (settles 2) []
   \<and> handler (requests (net (run [StartBattle [3/10, 9/10], Response 0 (Ok (PokemonJson ditto)),
        Response 1 (Ok (PokemonJson pikachu)), Resume 0 0 0] init)) ! 2) = MoveHandler ''thunder''"
  by code_simp

text \<open>
  Round 0 asks for the pokemons 46 and 136 and is superseded by round 1. In the first
  run request 0 then fails: round 0, had it not been superseded, would show the error and
  end loading; superseded, its continuation leaves the state of round 1 as it is. In the
  second run round 0 is superseded while it waits for its move, and the move arrives:
  not superseded it would end loading; superseded it changes nothing. In the third and
  fourth run a request of round 0 is pending when round 1 starts (for a pokemon, for a
  move): it is still pending afterwards, and its response fills the cache.
\<close>

theorem superseded_round_invisible_witness:
  "aborted (rounds (run [Response 0 (Failed (Error ''Network Error''))]
        (step (StartBattle [1/10, 1/2]) (run [StartBattle [3/10, 9/10]] init))) ! 0)
   \<and> visible (step (Resume 0 0 0) (run [Response 0 (Failed (Error ''Network Error''))]
        (step (StartBattle [1/10, 1/2]) (run [StartBattle [3/10, 9/10]] init)))) = ([], None, True)
   \<and> visible (step (Resume 0 0 0) (run ([StartBattle [3/10, 9/10]] @ [Response 0 (Failed (Error ''Network Error''))]) init))
       = ([], Some ''Network Error'', False)
   \<and> visible (step (Resume 0 0 0) (run [Response 2 (Ok (MoveJson (Some 110)))]
        (step (StartBattle [1/10, 1/2]) (run [StartBattle [3/10, 9/10], Response 0 (Ok (PokemonJson ditto)),
        Response 1 (Ok (PokemonJson pikachu)), Resume 0 0 0] init)))) = ([], None, True)
   \<and> loading (step (Resume 0 0 0) (run ([StartBattle [3/10, 9/10], Response 0 (Ok (PokemonJson ditto)),
        Response 1 (Ok (PokemonJson pikachu)), Resume 0 0 0] @ [Response 2 (Ok (MoveJson (Some 110)))]) init)) = False
   \<and> requests (net (run [Response 1 (Ok (PokemonJson ditto))]
        (step (StartBattle [1/10, 1/2]) (run [StartBattle [3/10, 9/10]] init)))) ! 0 = requests (net (run [StartBattle [3/10, 9/10]] init)) ! 0
   \<and> Cache_get (pokemonCache (net (step (Response 0 (Ok (PokemonJson pikachu)))
        (run [Response 1 (Ok (PokemonJson ditto))]
        (step (StartBattle [1/10, 1/2]) (run [StartBattle [3/10, 9/10]] init)))))) (toString 46) = Some pikachu
   \<and> requests (net (run []
        (step (StartBattle [1/10, 1/2]) (run [StartBattle [3/10, 9/10], Response 0 (Ok (PokemonJson ditto)),
        Response 1 (Ok (PokemonJson pikachu)), Resume 0 0 0] init)))) ! 2 = requests (net (run [StartBattle [3/10, 9/10], Response 0 (Ok (PokemonJson ditto)),
        Response 1 (Ok (PokemonJson pikachu)), Resume 0 0 0] init)) ! 2
   \<and> Cache_get (moveCache (net (step (Response 2 (Ok (MoveJson (Some 110))))
        (run []
        (step (StartBattle [1/10, 1/2]) (run [StartBattle [3/10, 9/10], Response 0 (Ok (PokemonJson ditto)),
        Response 1 (Ok (PokemonJson pikachu)), Resume 0 0 0] init)))))) ''thunder'' = Some \<lparr>Move.name = ''thunder'', power = Some 110\<rparr>"
proof -
  have b: "aborted (rounds (run [Response 0 (Failed (Error ''Network Error''))]
        (step (StartBattle [1/10, 1/2]) (run [StartBattle [3/10, 9/10]] init))) ! 0)
     \<and> visible (step (Resume 0 0 0) (run [Response 0 (Failed (Error ''Network Error''))]
        (step (StartBattle [1/10, 1/2]) (run [StartBattle [3/10, 9/10]] init))))
         = visible (run [Response 0 (Failed (Error ''Network Error''))]
        (step (StartBattle [1/10, 1/2]) (run [StartBattle [3/10, 9/10]] init)))"
    using superseded_round_invisible[OF refl _ _ refl, where pre = "[StartBattle [3/10, 9/10]]"
        and n = 0 and rs = "[1/10, 1/2]" and mid = "[Response 0 (Failed (Error ''Network Error''))]"
        and ?r1.0 = 0 and ?r2.0 = 0 and r = 0 and k = "toString 46" and d = pikachu
        and pw = "Some 110"]
      superseded_after_failure
    by blast
  have c: "visible (step (Resume 0 0 0) (run [Response 2 (Ok (MoveJson (Some 110)))]
        (step (StartBattle [1/10, 1/2]) (run [StartBattle [3/10, 9/10], Response 0 (Ok (PokemonJson ditto)),
        Response 1 (Ok (PokemonJson pikachu)), Resume 0 0 0] init))))
         = visible (run [Response 2 (Ok (MoveJson (Some 110)))]
        (step (StartBattle [1/10, 1/2]) (run [StartBattle [3/10, 9/10], Response 0 (Ok (PokemonJson ditto)),
        Response 1 (Ok (PokemonJson pikachu)), Resume 0 0 0] init)))"
    using superseded_round_invisible[OF refl _ _ refl, where pre = "[StartBattle [3/10, 9/10], Response 0 (Ok (PokemonJson ditto)),
        Response 1 (Ok (PokemonJson pikachu)), Resume 0 0 0]"
        and n = 0 and rs = "[1/10, 1/2]" and mid = "[Response 2 (Ok (MoveJson (Some 110)))]"
        and ?r1.0 = 0 and ?r2.0 = 0 and r = 0 and k = "toString 46" and d = pikachu
        and pw = "Some 110"]
      superseded_after_move
    by blast
  have d: "requests (net (run [Response 1 (Ok (PokemonJson ditto))]
        (step (StartBattle [1/10, 1/2]) (run [StartBattle [3/10, 9/10]] init)))) ! 0 = requests (net (run [StartBattle [3/10, 9/10]] init)) ! 0
     \<and> Cache_get (pokemonCache (net (step (Response 0 (Ok (PokemonJson pikachu)))
        (run [Response 1 (Ok (PokemonJson ditto))]
        (step (StartBattle [1/10, 1/2]) (run [StartBattle [3/10, 9/10]] init)))))) (toString 46) = Some pikachu"
    using superseded_round_invisible[OF refl _ _ refl, where pre = "[StartBattle [3/10, 9/10]]"
        and n = 0 and rs = "[1/10, 1/2]" and mid = "[Response 1 (Ok (PokemonJson ditto))]"
        and ?r1.0 = 0 and ?r2.0 = 0 and r = 0 and k = "toString 46" and d = pikachu
        and pw = "Some 110"]
      superseded_pokemon_request
    by blast
  have e: "requests (net (run []
        (step (StartBattle [1/10, 1/2]) (run [StartBattle [3/10, 9/10], Response 0 (Ok (PokemonJson ditto)),
        Response 1 (Ok (PokemonJson pikachu)), Resume 0 0 0] init)))) ! 2 = requests (net (run [StartBattle [3/10, 9/10], Response 0 (Ok (PokemonJson ditto)),
        Response 1 (Ok (PokemonJson pikachu)), Resume 0 0 0] init)) ! 2
     \<and> Cache_get (moveCache (net (step (Response 2 (Ok (MoveJson (Some 110))))
        (run []
        (step (StartBattle [1/10, 1/2]) (run [StartBattle [3/10, 9/10], Response 0 (Ok (PokemonJson ditto)),
        Response 1 (Ok (PokemonJson pikachu)), Resume 0 0 0] init)))))) ''thunder'' = Some \<lparr>Move.name = ''thunder'', power = Some 110\<rparr>"
    using superseded_round_invisible[OF refl _ _ refl, where pre = "[StartBattle [3/10, 9/10], Response 0 (Ok (PokemonJson ditto)),
        Response 1 (Ok (PokemonJson pikachu)), Resume 0 0 0]"
        and n = 0 and rs = "[1/10, 1/2]" and mid = "[]"
        and ?r1.0 = 0 and ?r2.0 = 0 and r = 2 and k = "''thunder''" and d = pikachu
        and pw = "Some 110"]
      superseded_move_request
    by blast
  have vb: "visible (run [Response 0 (Failed (Error ''Network Error''))]
        (step (StartBattle [1/10, 1/2]) (run [StartBattle [3/10, 9/10]] init))) = ([], None, True)"
    using superseded_after_failure by blast
  have vc: "visible (run [Response 2 (Ok (MoveJson (Some 110)))]
        (step (StartBattle [1/10, 1/2]) (run [StartBattle [3/10, 9/10], Response 0 (Ok (PokemonJson ditto)),
        Response 1 (Ok (PokemonJson pikachu)), Resume 0 0 0] init))) = ([], None, True)"
    using superseded_after_move by blast
  have xb: "visible (step (Resume 0 0 0) (run ([StartBattle [3/10, 9/10]] @ [Response 0 (Failed (Error ''Network Error''))]) init))
       = ([], Some ''Network Error'', False)"
    using superseded_after_failure by blast
  have xc: "loading (step (Resume 0 0 0) (run ([StartBattle [3/10, 9/10], Response 0 (Ok (PokemonJson ditto)),
        Response 1 (Ok (PokemonJson pikachu)), Resume 0 0 0] @ [Response 2 (Ok (MoveJson (Some 110)))]) init)) = False"
    using superseded_after_move by blast
  show ?thesis using b[unfolded vb] c[unfolded vc] d e xb xc by blast
qed

lemma with_move_no_moves:
  "moves p = [] \<Longrightarrow>
   with_move (PokemonData p) r g
     = (Pairing p (Ready (MoveData \<lparr>Move.name = ''No moves available'', power = None\<rparr>)), g)"
  by simp

lemma first_thrown_fulfilled:
  "handle_state g h1 = Fulfilled v1 \<Longrightarrow> handle_state g h2 = Fulfilled v2 \<Longrightarrow>
   first_thrown [h1, h2] = None"
  by (cases h1; cases h2) simp_all

lemma first_rejected_fulfilled:
  assumes "handle_state g h1 = Fulfilled v1" "handle_state g h2 = Fulfilled v2"
  shows "first_rejected [h1, h2] g = None"
proof -
  have "\<And>r. Waiting r \<in> set [h1, h2] \<Longrightarrow> rejection (handle_state g (Waiting r)) = None"
    using assms by auto
  then have "List.find (\<lambda>r. Waiting r \<in> set [h1, h2]
      \<and> rejection (handle_state g (Waiting r)) \<noteq> None) (settled g) = None"
    unfolding find_None_iff by (auto simp del: handle_state.simps)
  then show ?thesis by (simp add: first_rejected_def)
qed

lemma Promise_all_fulfilled:
  assumes "handle_state g h1 = Fulfilled v1" "handle_state g h2 = Fulfilled v2"
  shows "Promise_all [h1, h2] g = Values [v1, v2]"
  using first_thrown_fulfilled[OF assms] first_rejected_fulfilled[OF assms] assms
  by (simp add: Promise_all_def)

lemma resume_AwaitPokemons:
  assumes "n < length (rounds c)" "\<not> aborted (rounds c ! n)"
    and "phase (rounds c ! n) = AwaitPokemons hs"
    and "Promise_all hs (net c) = Values [a, b]"
  shows "phase (rounds (resume n r1 r2 c) ! n)
           = AwaitMoves [fst (with_move a r1 (net c)),
                         fst (with_move b r2 (snd (with_move a r1 (net c))))]
       \<and> net (resume n r1 r2 c) = snd (with_move b r2 (snd (with_move a r1 (net c))))
       \<and> visible (resume n r1 r2 c) = visible c"
  using assms
  by (simp add: resume_def set_phase_def visible_def split: prod.splits)

lemma resume_AwaitMoves:
  assumes "n < length (rounds c)" "\<not> aborted (rounds c ! n)"
    and "phase (rounds c ! n) = AwaitMoves [Pairing p1 h1, Pairing p2 h2]"
    and "handle_state (net c) h1 = Fulfilled m1" "handle_state (net c) h2 = Fulfilled m2"
  shows "visible (resume n r1 r2 c)
           = ([\<lparr>pokemon = p1, move = m1\<rparr>, \<lparr>pokemon = p2, move = m2\<rparr>], error c, False)
       \<and> net (resume n r1 r2 c) = net c"
  using assms Promise_all_fulfilled[OF assms(4,5)]
  by (simp add: resume_def set_phase_def visible_def)

text \<open>
  C8. If a fetched pokemon has an empty moves list, its closure pairs it with the
  sentinel move \<open>{ name: "No moves available", power: null }\<close> at once and calls no
  \<open>getMove\<close>: the module's state is unchanged by it. In the round, whether the pokemon
  comes first or second, only the other pokemon's closure can fetch a move, and once that
  move is there the round shows both pairs and ends loading, without an error.
\<close>

theorem no_moves_sentinel:
  assumes "moves p = []"
  shows
   "with_move (PokemonData p) r g
      = (Pairing p (Ready (MoveData \<lparr>Move.name = ''No moves available'', power = None\<rparr>)), g)
  \<and> (n < length (rounds c) \<and> \<not> aborted (rounds c ! n)
       \<and> phase (rounds c ! n) = AwaitPokemons hs
       \<and> Promise_all hs (net c) = Values [PokemonData p, PokemonData q] \<longrightarrow>
      phase (rounds (resume n r1 r2 c) ! n)
        = AwaitMoves [Pairing p (Ready (MoveData \<lparr>Move.name = ''No moves available'', power = None\<rparr>)),
                      fst (with_move (PokemonData q) r2 (net c))]
      \<and> net (resume n r1 r2 c) = snd (with_move (PokemonData q) r2 (net c))
      \<and> visible (resume n r1 r2 c) = visible c)
  \<and> (n < length (rounds c) \<and> \<not> aborted (rounds c ! n)
       \<and> phase (rounds c ! n) = AwaitPokemons hs
       \<and> Promise_all hs (net c) = Values [PokemonData q, PokemonData p] \<longrightarrow>
      phase (rounds (resume n r1 r2 c) ! n)
        = AwaitMoves [fst (with_move (PokemonData q) r1 (net c)),
                      Pairing p (Ready (MoveData \<lparr>Move.name = ''No moves available'', power = None\<rparr>))]
      \<and> net (resume n r1 r2 c) = snd (with_move (PokemonData q) r1 (net c))
      \<and> visible (resume n r1 r2 c) = visible c)
  \<and> (n < length (rounds c) \<and> \<not> aborted (rounds c ! n)
       \<and> phase (rounds c ! n)
           = AwaitMoves [Pairing p (Ready (MoveData \<lparr>Move.name = ''No moves available'', power = None\<rparr>)),
                         Pairing q h]
       \<and> handle_state (net c) h = Fulfilled m \<longrightarrow>
      visible (resume n r1 r2 c)
        = ([\<lparr>pokemon = p, move = MoveData \<lparr>Move.name = ''No moves available'', power = None\<rparr>\<rparr>,
            \<lparr>pokemon = q, move = m\<rparr>], error c, False)
      \<and> net (resume n r1 r2 c) = net c)
  \<and> (n < length (rounds c) \<and> \<not> aborted (rounds c ! n)
       \<and> phase (rounds c ! n)
           = AwaitMoves [Pairing q h,
                         Pairing p (Ready (MoveData \<lparr>Move.name = ''No moves available'', power = None\<rparr>))]
       \<and> handle_state (net c) h = Fulfilled m \<longrightarrow>
      visible (resume n r1 r2 c)
        = ([\<lparr>pokemon = q, move = m\<rparr>,
            \<lparr>pokemon = p, move = MoveData \<lparr>Move.name = ''No moves available'', power = None\<rparr>\<rparr>],
           error c, False)
      \<and> net (resume n r1 r2 c) = net c)"
proof -
  let ?S = "MoveData \<lparr>Move.name = ''No moves available'', power = None\<rparr>"
  have w: "\<And>r g. with_move (PokemonData p) r g = (Pairing p (Ready ?S), g)"
    using assms by simp
  have a: "phase (rounds (resume n r1 r2 c) ! n)
        = AwaitMoves [Pairing p (Ready ?S), fst (with_move (PokemonData q) r2 (net c))]
      \<and> net (resume n r1 r2 c) = snd (with_move (PokemonData q) r2 (net c))
      \<and> visible (resume n r1 r2 c) = visible c"
    if "n < length (rounds c)" "\<not> aborted (rounds c ! n)"
      "phase (rounds c ! n) = AwaitPokemons hs"
      "Promise_all hs (net c) = Values [PokemonData p, PokemonData q]"
    using resume_AwaitPokemons[OF that, of r1 r2] by (simp only: w fst_conv snd_conv)
  have b: "phase (rounds (resume n r1 r2 c) ! n)
        = AwaitMoves [fst (with_move (PokemonData q) r1 (net c)), Pairing p (Ready ?S)]
      \<and> net (resume n r1 r2 c) = snd (with_move (PokemonData q) r1 (net c))
      \<and> visible (resume n r1 r2 c) = visible c"
    if "n < length (rounds c)" "\<not> aborted (rounds c ! n)"
      "phase (rounds c ! n) = AwaitPokemons hs"
      "Promise_all hs (net c) = Values [PokemonData q, PokemonData p]"
    using resume_AwaitPokemons[OF that, of r1 r2] by (simp only: w fst_conv snd_conv)
  have s: "handle_state (net c) (Ready ?S) = Fulfilled ?S" by simp
  have d: "visible (resume n r1 r2 c)
        = ([\<lparr>pokemon = p, move = ?S\<rparr>, \<lparr>pokemon = q, move = m\<rparr>], error c, False)
      \<and> net (resume n r1 r2 c) = net c"
    if "n < length (rounds c)" "\<not> aborted (rounds c ! n)"
      "phase (rounds c ! n) = AwaitMoves [Pairing p (Ready ?S), Pairing q h]"
      "handle_state (net c) h = Fulfilled m"
    by (rule resume_AwaitMoves[OF that(1,2,3) s that(4)])
  have e: "visible (resume n r1 r2 c)
        = ([\<lparr>pokemon = q, move = m\<rparr>, \<lparr>pokemon = p, move = ?S\<rparr>], error c, False)
      \<and> net (resume n r1 r2 c) = net c"
    if "n < length (rounds c)" "\<not> aborted (rounds c ! n)"
      "phase (rounds c ! n) = AwaitMoves [Pairing q h, Pairing p (Ready ?S)]"
      "handle_state (net c) h = Fulfilled m"
    by (rule resume_AwaitMoves[OF that(1,2,3) that(4) s])
  show ?thesis using w a b d e by blast
qed


text \<open>
  A round that fetched ditto (no moves) and pikachu, in either order.
\<close>

lemma moves_ditto: "moves ditto = []"
  by (simp add: ditto_def)

lemma round_ditto_first:
  "0 < length (rounds (run [StartBattle [3/10, 9/10], Response 0 (Ok (PokemonJson ditto)),
          Response 1 (Ok (PokemonJson pikachu))] init))
   \<and> \<not> aborted (rounds (run [StartBattle [3/10, 9/10], Response 0 (Ok (PokemonJson ditto)),
          Response 1 (Ok (PokemonJson pikachu))] init) ! 0)
   \<and> phase (rounds (run [StartBattle [3/10, 9/10], Response 0 (Ok (PokemonJson ditto)),
          Response 1 (Ok (PokemonJson pikachu))] init) ! 0) = AwaitPokemons [Waiting 0, Waiting 1]
   \<and> Promise_all [Waiting 0, Waiting 1] (net (run [StartBattle [3/10, 9/10], Response 0 (Ok (PokemonJson ditto)),
          Response 1 (Ok (PokemonJson pikachu))] init))
       = Values [PokemonData ditto, PokemonData pikachu]
   \<and> fst (with_move (PokemonData pikachu) 0 (net (run [StartBattle [3/10, 9/10], Response 0 (Ok (PokemonJson ditto)),
          Response 1 (Ok (PokemonJson pikachu))] init))) = Pairing pikachu (Waiting 2)"
  by code_simp

lemma round_ditto_second:
  "0 < length (rounds (run [StartBattle [3/10, 9/10], Response 0 (Ok (PokemonJson pikachu)),
          Response 1 (Ok (PokemonJson ditto))] init))
   \<and> \<not> aborted (rounds (run [StartBattle [3/10, 9/10], Response 0 (Ok (PokemonJson pikachu)),
          Response 1 (Ok (PokemonJson ditto))] init) ! 0)
   \<and> phase (rounds (run [StartBattle [3/10, 9/10], Response 0 (Ok (PokemonJson pikachu)),
          Response 1 (Ok (PokemonJson ditto))] init) ! 0) = AwaitPokemons [Waiting 0, Waiting 1]
   \<and> Promise_all [Waiting 0, Waiting 1] (net (run [StartBattle [3/10, 9/10], Response 0 (Ok (PokemonJson pikachu)),
          Response 1 (Ok (PokemonJson ditto))] init))
       = Values [PokemonData pikachu, PokemonData ditto]
   \<and> fst (with_move (PokemonData pikachu) 0 (net (run [StartBattle [3/10, 9/10], Response 0 (Ok (PokemonJson pikachu)),
          Response 1 (Ok (PokemonJson ditto))] init))) = Pairing pikachu (Waiting 2)"
  by code_simp

lemma round_ditto_first_moves:
  "0 < length (rounds (run [StartBattle [3/10, 9/10], Response 0 (Ok (PokemonJson ditto)),
          Response 1 (Ok (PokemonJson pikachu)), Resume 0 0 0,
          Response 2 (Ok (MoveJson (Some 110)))] init))
   \<and> \<not> aborted (rounds (run [StartBattle [3/10, 9/10], Response 0 (Ok (PokemonJson ditto)),
          Response 1 (Ok (PokemonJson pikachu)), Resume 0 0 0,
          Response 2 (Ok (MoveJson (Some 110)))] init) ! 0)
   \<and> phase (rounds (run [StartBattle [3/10, 9/10], Response 0 (Ok (PokemonJson ditto)),
          Response 1 (Ok (PokemonJson pikachu)), Resume 0 0 0,
          Response 2 (Ok (MoveJson (Some 110)))] init) ! 0) = AwaitMoves [Pairing ditto (Ready (MoveData \<lparr>Move.name = ''No moves available'', power = None\<rparr>)),
       Pairing pikachu (Waiting 2)]
   \<and> handle_state (net (run [StartBattle [3/10, 9/10], Response 0 (Ok (PokemonJson ditto)),
          Response 1 (Ok (PokemonJson pikachu)), Resume 0 0 0,
          Response 2 (Ok (MoveJson (Some 110)))] init)) (Waiting 2) = Fulfilled (MoveData \<lparr>Move.name = ''thunder'', power = Some 110\<rparr>)
   \<and> error (run [StartBattle [3/10, 9/10], Response 0 (Ok (PokemonJson ditto)),
          Response 1 (Ok (PokemonJson pikachu)), Resume 0 0 0,
          Response 2 (Ok (MoveJson (Some 110)))] init) = None"
  by code_simp

lemma round_ditto_second_moves:
  "0 < length (rounds (run [StartBattle [3/10, 9/10], Response 0 (Ok (PokemonJson pikachu)),
          Response 1 (Ok (PokemonJson ditto)), Resume 0 0 0,
          Response 2 (Ok (MoveJson (Some 110)))] init))
   \<and> \<not> aborted (rounds (run [StartBattle [3/10, 9/10], Response 0 (Ok (PokemonJson pikachu)),
          Response 1 (Ok (PokemonJson ditto)), Resume 0 0 0,
          Response 2 (Ok (MoveJson (Some 110)))] init) ! 0)
   \<and> phase (rounds (run [StartBattle [3/10, 9/10], Response 0 (Ok (PokemonJson pikachu)),
          Response 1 (Ok (PokemonJson ditto)), Resume 0 0 0,
          Response 2 (Ok (MoveJson (Some 110)))] init) ! 0) = AwaitMoves [Pairing pikachu (Waiting 2),
       Pairing ditto (Ready (MoveData \<lparr>Move.name = ''No moves available'', power = None\<rparr>))]
   \<and> handle_state (net (run [StartBattle [3/10, 9/10], Response 0 (Ok (PokemonJson pikachu)),
          Response 1 (Ok (PokemonJson ditto)), Resume 0 0 0,
          Response 2 (Ok (MoveJson (Some 110)))] init)) (Waiting 2) = Fulfilled (MoveData \<lparr>Move.name = ''thunder'', power = Some 110\<rparr>)
   \<and> error (run [StartBattle [3/10, 9/10], Response 0 (Ok (PokemonJson pikachu)),
          Response 1 (Ok (PokemonJson ditto)), Resume 0 0 0,
          Response 2 (Ok (MoveJson (Some 110)))] init) = None"
  by code_simp

theorem no_moves_sentinel_witness:
  "with_move (PokemonData ditto) 0 init_globals
     = (Pairing ditto (Ready (MoveData \<lparr>Move.name = ''No moves available'', power = None\<rparr>)), init_globals)
   \<and> phase (rounds (resume 0 0 0 (run [StartBattle [3/10, 9/10], Response 0 (Ok (PokemonJson ditto)),
          Response 1 (Ok (PokemonJson pikachu))] init)) ! 0)
     = AwaitMoves [Pairing ditto (Ready (MoveData \<lparr>Move.name = ''No moves available'', power = None\<rparr>)), Pairing pikachu (Waiting 2)]
   \<and> phase (rounds (resume 0 0 0 (run [StartBattle [3/10, 9/10], Response 0 (Ok (PokemonJson pikachu)),
          Response 1 (Ok (PokemonJson ditto))] init)) ! 0)
     = AwaitMoves [Pairing pikachu (Waiting 2), Pairing ditto (Ready (MoveData \<lparr>Move.name = ''No moves available'', power = None\<rparr>))]
   \<and> visible (resume 0 0 0 (run [StartBattle [3/10, 9/10], Response 0 (Ok (PokemonJson ditto)),
          Response 1 (Ok (PokemonJson pikachu)), Resume 0 0 0,
          Response 2 (Ok (MoveJson (Some 110)))] init))
     = ([\<lparr>pokemon = ditto, move = MoveData \<lparr>Move.name = ''No moves available'', power = None\<rparr>\<rparr>,
         \<lparr>pokemon = pikachu, move = MoveData \<lparr>Move.name = ''thunder'', power = Some 110\<rparr>\<rparr>], None, False)
   \<and> visible (resume 0 0 0 (run [StartBattle [3/10, 9/10], Response 0 (Ok (PokemonJson pikachu)),
          Response 1 (Ok (PokemonJson ditto)), Resume 0 0 0,
          Response 2 (Ok (MoveJson (Some 110)))] init))
     = ([\<lparr>pokemon = pikachu, move = MoveData \<lparr>Move.name = ''thunder'', power = Some 110\<rparr>\<rparr>,
         \<lparr>pokemon = ditto, move = MoveData \<lparr>Move.name = ''No moves available'', power = None\<rparr>\<rparr>], None, False)"
proof -
  have a: "with_move (PokemonData ditto) 0 init_globals
     = (Pairing ditto (Ready (MoveData \<lparr>Move.name = ''No moves available'', power = None\<rparr>)), init_globals)"
    using no_moves_sentinel[OF moves_ditto, where q = pikachu and r = 0 and g = init_globals
        and n = 0 and ?r1.0 = 0 and ?r2.0 = 0 and hs = "[Waiting 0, Waiting 1]"
        and h = "Waiting 2" and m = "MoveData \<lparr>Move.name = ''thunder'', power = Some 110\<rparr>"
        and c = "run [StartBattle [3/10, 9/10], Response 0 (Ok (PokemonJson ditto)),
          Response 1 (Ok (PokemonJson pikachu))] init"]
    by blast
  have b: "phase (rounds (resume 0 0 0 (run [StartBattle [3/10, 9/10], Response 0 (Ok (PokemonJson ditto)),
          Response 1 (Ok (PokemonJson pikachu))] init)) ! 0)
     = AwaitMoves [Pairing ditto (Ready (MoveData \<lparr>Move.name = ''No moves available'', power = None\<rparr>)),
         fst (with_move (PokemonData pikachu) 0 (net (run [StartBattle [3/10, 9/10], Response 0 (Ok (PokemonJson ditto)),
          Response 1 (Ok (PokemonJson pikachu))] init)))]"
    using no_moves_sentinel[OF moves_ditto, where q = pikachu and r = 0 and g = init_globals
        and n = 0 and ?r1.0 = 0 and ?r2.0 = 0 and hs = "[Waiting 0, Waiting 1]"
        and h = "Waiting 2" and m = "MoveData \<lparr>Move.name = ''thunder'', power = Some 110\<rparr>"
        and c = "run [StartBattle [3/10, 9/10], Response 0 (Ok (PokemonJson ditto)),
          Response 1 (Ok (PokemonJson pikachu))] init"]
      round_ditto_first
    by blast
  have c: "phase (rounds (resume 0 0 0 (run [StartBattle [3/10, 9/10], Response 0 (Ok (PokemonJson pikachu)),
          Response 1 (Ok (PokemonJson ditto))] init)) ! 0)
     = AwaitMoves [fst (with_move (PokemonData pikachu) 0 (net (run [StartBattle [3/10, 9/10], Response 0 (Ok (PokemonJson pikachu)),
          Response 1 (Ok (PokemonJson ditto))] init))),
         Pairing ditto (Ready (MoveData \<lparr>Move.name = ''No moves available'', power = None\<rparr>))]"
    using no_moves_sentinel[OF moves_ditto, where q = pikachu and r = 0 and g = init_globals
        and n = 0 and ?r1.0 = 0 and ?r2.0 = 0 and hs = "[Waiting 0, Waiting 1]"
        and h = "Waiting 2" and m = "MoveData \<lparr>Move.name = ''thunder'', power = Some 110\<rparr>"
        and c = "run [StartBattle [3/10, 9/10], Response 0 (Ok (PokemonJson pikachu)),
          Response 1 (Ok (PokemonJson ditto))] init"]
      round_ditto_second
    by blast
  have d: "visible (resume 0 0 0 (run [StartBattle [3/10, 9/10], Response 0 (Ok (PokemonJson ditto)),
          Response 1 (Ok (PokemonJson pikachu)), Resume 0 0 0,
          Response 2 (Ok (MoveJson (Some 110)))] init))
     = ([\<lparr>pokemon = ditto, move = MoveData \<lparr>Move.name = ''No moves available'', power = None\<rparr>\<rparr>,
         \<lparr>pokemon = pikachu, move = MoveData \<lparr>Move.name = ''thunder'', power = Some 110\<rparr>\<rparr>],
        error (run [StartBattle [3/10, 9/10], Response 0 (Ok (PokemonJson ditto)),
          Response 1 (Ok (PokemonJson pikachu)), Resume 0 0 0,
          Response 2 (Ok (MoveJson (Some 110)))] init), False)"
    using no_moves_sentinel[OF moves_ditto, where q = pikachu and r = 0 and g = init_globals
        and n = 0 and ?r1.0 = 0 and ?r2.0 = 0 and hs = "[Waiting 0, Waiting 1]"
        and h = "Waiting 2" and m = "MoveData \<lparr>Move.name = ''thunder'', power = Some 110\<rparr>"
        and c = "run [StartBattle [3/10, 9/10], Response 0 (Ok (PokemonJson ditto)),
          Response 1 (Ok (PokemonJson pikachu)), Resume 0 0 0,
          Response 2 (Ok (MoveJson (Some 110)))] init"]
      round_ditto_first_moves
    by blast
  have e: "visible (resume 0 0 0 (run [StartBattle [3/10, 9/10], Response 0 (Ok (PokemonJson pikachu)),
          Response 1 (Ok (PokemonJson ditto)), Resume 0 0 0,
          Response 2 (Ok (MoveJson (Some 110)))] init))
     = ([\<lparr>pokemon = pikachu, move = MoveData \<lparr>Move.name = ''thunder'', power = Some 110\<rparr>\<rparr>,
         \<lparr>pokemon = ditto, move = MoveData \<lparr>Move.name = ''No moves available'', power = None\<rparr>\<rparr>],
        error (run [StartBattle [3/10, 9/10], Response 0 (Ok (PokemonJson pikachu)),
          Response 1 (Ok (PokemonJson ditto)), Resume 0 0 0,
          Response 2 (Ok (MoveJson (Some 110)))] init), False)"
    using no_moves_sentinel[OF moves_ditto, where q = pikachu and r = 0 and g = init_globals
        and n = 0 and ?r1.0 = 0 and ?r2.0 = 0 and hs = "[Waiting 0, Waiting 1]"
        and h = "Waiting 2" and m = "MoveData \<lparr>Move.name = ''thunder'', power = Some 110\<rparr>"
        and c = "run [StartBattle [3/10, 9/10], Response 0 (Ok (PokemonJson pikachu)),
          Response 1 (Ok (PokemonJson ditto)), Resume 0 0 0,
          Response 2 (Ok (MoveJson (Some 110)))] init"]
      round_ditto_second_moves
    by blast
  have wa: "fst (with_move (PokemonData pikachu) 0 (net (run [StartBattle [3/10, 9/10], Response 0 (Ok (PokemonJson ditto)),
          Response 1 (Ok (PokemonJson pikachu))] init))) = Pairing pikachu (Waiting 2)"
    using round_ditto_first by blast
  have wb: "fst (with_move (PokemonData pikachu) 0 (net (run [StartBattle [3/10, 9/10], Response 0 (Ok (PokemonJson pikachu)),
          Response 1 (Ok (PokemonJson ditto))] init))) = Pairing pikachu (Waiting 2)"
    using round_ditto_second by blast
  have ea: "error (run [StartBattle [3/10, 9/10], Response 0 (Ok (PokemonJson ditto)),
          Response 1 (Ok (PokemonJson pikachu)), Resume 0 0 0,
          Response 2 (Ok (MoveJson (Some 110)))] init) = None"
    using round_ditto_first_moves by blast
  have eb: "error (run [StartBattle [3/10, 9/10], Response 0 (Ok (PokemonJson pikachu)),
          Response 1 (Ok (PokemonJson ditto)), Resume 0 0 0,
          Response 2 (Ok (MoveJson (Some 110)))] init) = None"
    using round_ditto_second_moves by blast
  show ?thesis
    using a b[unfolded wa] c[unfolded wb] d[unfolded ea] e[unfolded eb] by blast
qed

end
